theory Spec2Isabelle
  imports Complex_Main
begin

section \<open>Python values and exceptions\<close>

text \<open>
  The scoring core (\<^verbatim>\<open>savant_core/agi_rrf_core.py\<close>) is embedded function by function.
  Python and numpy floats are IEEE-754 binary64 numbers, and two levels of detail are
  used. Where a statement is about structure (which branch runs, which entries a
  vector has, which exception propagates), floats are idealised as real numbers:
  rounding, infinities and NaN are not represented. Where a statement depends on
  rounding, overflow or NaN (\<open>sigmoid\<close>, \<open>safe_cosine\<close>, \<open>token_entropy\<close>), the
  function is evaluated a second time in binary64 arithmetic (\<open>sigmoid_f64\<close>,
  \<open>safe_cosine_f64\<close>, \<open>token_entropy_f64\<close>).

  What the source can raise is a value: a result is \<open>py_exc + 'a\<close>, with \<open>Inl\<close> the
  exception that propagates. An exception has a class name and a message. \<open>Exc\<close> is an
  instance of a class derived from \<^verbatim>\<open>Exception\<close>, which \<^verbatim>\<open>except Exception\<close> catches;
  \<open>BaseExc\<close> is an instance of a class derived from \<^verbatim>\<open>BaseException\<close> only
  (\<^verbatim>\<open>KeyboardInterrupt\<close>, \<^verbatim>\<open>SystemExit\<close>, \<^verbatim>\<open>GeneratorExit\<close>), which it does not catch.
\<close>

datatype py_exc =
    Exc (exc_class: string) (exc_msg: string)
  | BaseExc (exc_class: string) (exc_msg: string)

definition bind_res :: "py_exc + 'a \<Rightarrow> ('a \<Rightarrow> py_exc + 'b) \<Rightarrow> py_exc + 'b" where
  "bind_res m f = (case m of Inl e \<Rightarrow> Inl e | Inr v \<Rightarrow> f v)"

text \<open>
  numpy's error messages name the shapes of the arrays; \<open>dec_str\<close> is the decimal
  numeral of a length and \<open>shape_str\<close> the shape of a one-dimensional array, as
  in \<^verbatim>\<open>(3,)\<close>.
\<close>

fun dec_str :: "nat \<Rightarrow> string" where
  "dec_str n =
     (if n < 10 then [char_of (48 + n)]
      else dec_str (n div 10) @ [char_of (48 + n mod 10)])"

declare dec_str.simps [simp del]

definition shape_str :: "'a list \<Rightarrow> string" where
  "shape_str a = ''('' @ dec_str (length a) @ '',)''"

section \<open>Numeric primitives\<close>

subsection \<open>sigmoid\<close>

text \<open>
  \<^verbatim>\<open>math.exp\<close> raises \<^verbatim>\<open>OverflowError\<close> when its result exceeds the largest
  finite double, and raises nothing else on a float; \<open>None\<close> is that exception.
\<close>

definition DBL_MAX :: real where
  "DBL_MAX = (2 ^ 53 - 1) * 2 ^ 971"

definition math_exp :: "real \<Rightarrow> real option" where
  "math_exp x = (if DBL_MAX < exp x then None else Some (exp x))"

text \<open>
  \<^verbatim>\<open>
  def sigmoid(x):
      try:
          return 1.0 / (1.0 + math.exp(-x))
      except OverflowError:
          return 0.0 if x < 0 else 1.0
  \<close>
  The divisor \<open>1 + e\<close> is positive, so the division raises nothing.
\<close>

definition sigmoid :: "real \<Rightarrow> real" where
  "sigmoid x = (case math_exp (- x) of
                  Some e \<Rightarrow> 1 / (1 + e)
                | None \<Rightarrow> (if x < 0 then 0 else 1))"

subsection \<open>safe\_cosine\<close>

text \<open>
  \<^verbatim>\<open>numpy.linalg.norm\<close> of a one-dimensional array is the square root of its dot
  product with itself; \<^verbatim>\<open>np.dot\<close> of two one-dimensional arrays raises
  \<^verbatim>\<open>ValueError\<close> when their lengths differ.
\<close>

definition np_norm :: "real list \<Rightarrow> real" where
  "np_norm a = sqrt (sum_list (map (\<lambda>x. x * x) a))"

definition shapes_not_aligned :: "'a list \<Rightarrow> 'a list \<Rightarrow> py_exc" where
  "shapes_not_aligned a b =
     Exc ''ValueError''
         (''shapes '' @ shape_str a @ '' and '' @ shape_str b @ '' not aligned: ''
          @ dec_str (length a) @ '' (dim 0) != '' @ dec_str (length b) @ '' (dim 0)'')"

definition np_dot :: "real list \<Rightarrow> real list \<Rightarrow> py_exc + real" where
  "np_dot a b =
     (if length a \<noteq> length b then Inl (shapes_not_aligned a b)
      else Inr (sum_list (map2 (*) a b)))"

text \<open>
  \<^verbatim>\<open>
  def safe_cosine(a, b):
      na, nb = norm(a), norm(b)
      if na == 0.0 or nb == 0.0:
          return 0.0
      return float(np.dot(a, b) / (na * nb))
  \<close>
\<close>

definition safe_cosine :: "real list \<Rightarrow> real list \<Rightarrow> py_exc + real" where
  "safe_cosine a b =
     (let na = np_norm a; nb = np_norm b in
      if na = 0 \<or> nb = 0 then Inr 0
      else bind_res (np_dot a b) (\<lambda>d. Inr (d / (na * nb))))"

subsection \<open>token\_entropy\<close>

text \<open>
  \<^verbatim>\<open>collections.Counter\<close> is a dictionary from each distinct character to its
  number of occurrences, in order of first occurrence: an association list.
\<close>

fun counter_add :: "'c \<Rightarrow> ('c \<times> nat) list \<Rightarrow> ('c \<times> nat) list" where
  "counter_add c [] = [(c, 1)]"
| "counter_add c ((k, v) # kvs) =
     (if k = c then (k, v + 1) # kvs else (k, v) # counter_add c kvs)"

definition Counter :: "'c list \<Rightarrow> ('c \<times> nat) list" where
  "Counter text = foldl (\<lambda>m c. counter_add c m) [] text"

text \<open>
  \<^verbatim>\<open>
  def token_entropy(text):
      if not text:
          return 0.0
      c = Counter(text)
      total = sum(c.values())
      ent = 0.0
      for _, v in c.items():
          p = v / total
          ent -= p * math.log(p + 1e-12)
      return float(ent)
  \<close>
  The text is a list of characters of any alphabet. For a non-empty text \<open>total\<close>
  is positive and every \<open>p\<close> is positive (\<open>Counter_total\<close>, \<open>Counter_positive\<close>
  below), so neither the division nor the logarithm raises.
\<close>

definition entropy_step :: "nat \<Rightarrow> real \<Rightarrow> 'c \<times> nat \<Rightarrow> real" where
  "entropy_step tot ent kv =
     (let p = real (snd kv) / real tot in ent - p * ln (p + 1 / 10 ^ 12))"

definition token_entropy :: "'c list \<Rightarrow> real" where
  "token_entropy text =
     (if text = [] then 0
      else let c = Counter text; tot = sum_list (map snd c)
           in foldl (entropy_step tot) 0 c)"

subsection \<open>spectrum\_features\<close>

text \<open>
  \<^verbatim>\<open>scipy.fft.rfft\<close> of a real vector of length \<open>n \<ge> 1\<close> is the first
  \<open>n div 2 + 1\<close> coefficients of its discrete Fourier transform; on an empty vector it
  raises \<^verbatim>\<open>ValueError\<close>.
\<close>

definition dft_coeff :: "real list \<Rightarrow> nat \<Rightarrow> complex" where
  "dft_coeff x k =
     sum_list (map (\<lambda>(j, xj). of_real xj * cis (- (2 * pi * real j * real k / real (length x))))
                   (enumerate 0 x))"

definition rfft :: "real list \<Rightarrow> py_exc + complex list" where
  "rfft x =
     (if length x < 1
      then Inl (Exc ''ValueError'' ''invalid number of data points (0) specified'')
      else Inr (map (dft_coeff x) [0 ..< length x div 2 + 1]))"

text \<open>
  \<^verbatim>\<open>ndarray.mean\<close> is the sum over the number of entries. On an empty slice numpy
  yields NaN, which the reals do not have; \<open>band_slices_nonempty\<close> below shows that
  every slice \<open>spectrum_features\<close> averages is non-empty.
\<close>

definition np_mean :: "real list \<Rightarrow> real" where
  "np_mean ys = sum_list ys / real (length ys)"

text \<open>\<^verbatim>\<open>np.argmax\<close>: the first index of the maximum; \<^verbatim>\<open>ValueError\<close> on an empty array.\<close>

fun argmax_from :: "real list \<Rightarrow> nat \<Rightarrow> nat \<Rightarrow> real \<Rightarrow> nat" where
  "argmax_from [] i best bv = best"
| "argmax_from (v # vs) i best bv =
     (if bv < v then argmax_from vs (Suc i) i v else argmax_from vs (Suc i) best bv)"

definition np_argmax :: "real list \<Rightarrow> py_exc + nat" where
  "np_argmax ys =
     (case ys of
        [] \<Rightarrow> Inl (Exc ''ValueError'' ''attempt to get argmax of an empty sequence'')
      | v # vs \<Rightarrow> Inr (argmax_from vs 1 0 v))"

text \<open>Division of two Python floats raises \<^verbatim>\<open>ZeroDivisionError\<close> on a zero divisor.\<close>

definition py_div :: "real \<Rightarrow> real \<Rightarrow> py_exc + real" where
  "py_div a b =
     (if b = 0 then Inl (Exc ''ZeroDivisionError'' ''float division by zero'')
      else Inr (a / b))"

text \<open>The slice \<^verbatim>\<open>y[a:b]\<close> for indices \<open>0 \<le> a\<close>, \<open>0 \<le> b\<close>.\<close>

definition slice :: "nat \<Rightarrow> nat \<Rightarrow> 'a list \<Rightarrow> 'a list" where
  "slice a b ys = take (b - a) (drop a ys)"

text \<open>
  The result dictionary has four fixed keys, read only by those keys: a record.
\<close>

record spectrum =
  freq_low :: real
  freq_mid :: real
  freq_high :: real
  dominant_frequency :: real

text \<open>
  \<^verbatim>\<open>
  def spectrum_features(vec):
      x = vec.astype(np.float64)
      y = np.abs(rfft(x))
      if y.size == 0:
          return {"freq_low": 0.0, "freq_mid": 0.0, "freq_high": 0.0, "dominant_frequency": 0.0}
      n = y.size
      low = y[: max(1, n//6)].mean()
      mid = y[max(1, n//6) : max(2, n//3)].mean() if n >= 3 else 0.0
      high = y[max(2, n//3) :].mean() if n >= 3 else 0.0
      dom = float(np.argmax(y)) / float(max(1, n-1))
      return {"freq_low": float(low), "freq_mid": float(mid), "freq_high": float(high), "dominant_frequency": dom}
  \<close>
  \<open>band_features\<close> is the part after the transform (from the test \<^verbatim>\<open>y.size == 0\<close> on),
  as a function of the magnitude spectrum \<open>y\<close>. There \<open>n \<ge> 1\<close>, so \<open>n - 1\<close> is the
  same in \<open>nat\<close> as in Python.
\<close>

definition band_features :: "real list \<Rightarrow> py_exc + spectrum" where
  "band_features y =
     (if length y = 0
      then Inr \<lparr>freq_low = 0, freq_mid = 0, freq_high = 0, dominant_frequency = 0\<rparr>
      else
        let n = length y;
            low = np_mean (take (max 1 (n div 6)) y);
            mid = (if n \<ge> 3 then np_mean (slice (max 1 (n div 6)) (max 2 (n div 3)) y) else 0);
            high = (if n \<ge> 3 then np_mean (drop (max 2 (n div 3)) y) else 0)
        in bind_res (np_argmax y) (\<lambda>i.
           bind_res (py_div (real i) (real (max 1 (n - 1)))) (\<lambda>dom.
           Inr \<lparr>freq_low = low, freq_mid = mid, freq_high = high, dominant_frequency = dom\<rparr>)))"

definition spectrum_features :: "real list \<Rightarrow> py_exc + spectrum" where
  "spectrum_features vec = bind_res (rfft vec) (\<lambda>z. band_features (map cmod z))"

section \<open>The scoring core\<close>

subsection \<open>Collaborators\<close>

text \<open>
  The embedder and the classifier are injected objects (\<^verbatim>\<open>Any\<close>). The embedder is its
  \<^verbatim>\<open>encode\<close> method: a text to a vector, or an exception. The classifier has a class
  name (it appears in the \<^verbatim>\<open>AttributeError\<close> of a missing method) and three optional
  attributes. An absent method is \<open>None\<close>. For the one-row batch that \<open>predict\<close> passes,
  \<^verbatim>\<open>predict_proba\<close> returns one row of two class probabilities and
  \<^verbatim>\<open>decision_function\<close> one score; a call that raises, or whose result cannot be
  indexed, is a call that fails with that exception. The attribute
  \<^verbatim>\<open>feature_names_in_\<close> is absent (\<open>NoNames\<close>), or converting it to a list raises
  (\<open>NamesFail\<close>), or it is a list of names.
\<close>

datatype names_attr = NoNames | NamesFail py_exc | Names "string list"

record classifier =
  type_name :: string
  feature_names_in :: names_attr
  predict_proba :: "(real list \<Rightarrow> py_exc + real \<times> real) option"
  decision_function :: "(real list \<Rightarrow> py_exc + real) option"

record AGIRRFCore =
  embedder :: "string \<Rightarrow> py_exc + real list"
  meta_logit :: classifier
  expected_features :: int

definition attribute_error :: "classifier \<Rightarrow> string \<Rightarrow> py_exc" where
  "attribute_error clf attr =
     Exc ''AttributeError''
         ([CHR 0x27] @ type_name clf @ [CHR 0x27] @ '' object has no attribute ''
          @ [CHR 0x27] @ attr @ [CHR 0x27])"

subsection \<open>Feature names\<close>

definition canonical_names :: "string list" where
  "canonical_names =
     [''semantic_margin'', ''cosine_prompt_answer'', ''token_entropy'', ''dirac_energy'',
      ''dirac_shell_std'', ''freq_low'', ''freq_mid'', ''freq_high'', ''coherence_ratio'',
      ''phi'', ''omega'', ''S_RRF'', ''C_RRF'', ''dominant_frequency'', ''Phi1_geometric'']"

text \<open>
  \<^verbatim>\<open>
  def _feature_names(self):
      if hasattr(self.meta_logit, "feature_names_in_"):
          try:
              return list(self.meta_logit.feature_names_in_)
          except Exception:
              pass
      return ["semantic_margin", ...]
  \<close>
  The classifier's names when the attribute exists and converts to a list, the
  canonical fifteen names when it is absent or the conversion raises an
  \<^verbatim>\<open>Exception\<close>; any other exception of the conversion propagates.
\<close>

definition feature_names :: "AGIRRFCore \<Rightarrow> py_exc + string list" where
  "feature_names core =
     (case feature_names_in (meta_logit core) of
        Names ns \<Rightarrow> Inr ns
      | NamesFail (Exc c m) \<Rightarrow> Inr canonical_names
      | NamesFail (BaseExc c m) \<Rightarrow> Inl (BaseExc c m)
      | NoNames \<Rightarrow> Inr canonical_names)"

subsection \<open>extract\_features\<close>

text \<open>
  Subtraction of two one-dimensional arrays broadcasts an array of length one and
  raises \<^verbatim>\<open>ValueError\<close> on any other pair of different lengths.
\<close>

definition np_sub :: "real list \<Rightarrow> real list \<Rightarrow> py_exc + real list" where
  "np_sub a b =
     (if length a = length b then Inr (map2 (-) a b)
      else if length a = 1 then Inr (map (\<lambda>y. hd a - y) b)
      else if length b = 1 then Inr (map (\<lambda>x. x - hd b) a)
      else Inl (Exc ''ValueError''
                  (''operands could not be broadcast together with shapes ''
                   @ shape_str a @ '' '' @ shape_str b @ '' '')))"

text \<open>
  \<^verbatim>\<open>np.std\<close>: the square root of the mean squared deviation from the mean. On an
  empty array numpy yields NaN; the model has no NaN, and its value there is not used
  by any statement below.
\<close>

definition np_std :: "real list \<Rightarrow> real" where
  "np_std xs = (let m = np_mean xs in sqrt (np_mean (map (\<lambda>x. (x - m) * (x - m)) xs)))"

text \<open>The feature set is a dictionary: an association list in the order of the literal.\<close>

type_synonym feature_set = "(string \<times> real) list"

definition dict_get :: "feature_set \<Rightarrow> string \<Rightarrow> real \<Rightarrow> real" where
  "dict_get d k dflt = (case map_of d k of None \<Rightarrow> dflt | Some v \<Rightarrow> v)"

text \<open>
  \<^verbatim>\<open>
  def extract_features(self, prompt, answer):
      ep = np.array(self.embedder.encode(prompt, normalize_embeddings=False), dtype=np.float64)
      ea = np.array(self.embedder.encode(answer, normalize_embeddings=False), dtype=np.float64)
      cos = safe_cosine(ep, ea)
      semantic_margin = float(cos - 0.5)
      ent = float(token_entropy(prompt + answer))
      dirac_energy = float(norm(ep - ea))
      dirac_shell_std = float(np.std(np.abs(ep)) + np.std(np.abs(ea)))
      sf = spectrum_features(ea)
      coherence_ratio = float((abs(cos) + 1e-9) / (1.0 + ent))
      phi = 0.6321205588
      omega = float(2.0 * math.pi * max(1e-6, sf["dominant_frequency"]))
      S_RRF = float(sigmoid(2.0 * semantic_margin))
      C_RRF = float(1.0 - abs(0.5 - cos))
      Phi1_geometric = float(sigmoid(1.5 * cos))
      return {...}
  \<close>
  The statements run in the source's order, so the first exception is the one that
  propagates.
\<close>

definition extract_features :: "AGIRRFCore \<Rightarrow> string \<Rightarrow> string \<Rightarrow> py_exc + feature_set" where
  "extract_features core prompt answer =
     bind_res (embedder core prompt) (\<lambda>ep.
     bind_res (embedder core answer) (\<lambda>ea.
     bind_res (safe_cosine ep ea) (\<lambda>cos.
       let semantic_margin = cos - 1 / 2;
           ent = token_entropy (prompt @ answer)
       in
     bind_res (np_sub ep ea) (\<lambda>diff.
       let dirac_energy = np_norm diff;
           dirac_shell_std = np_std (map abs ep) + np_std (map abs ea)
       in
     bind_res (spectrum_features ea) (\<lambda>sf.
     bind_res (py_div (\<bar>cos\<bar> + 1 / 10 ^ 9) (1 + ent)) (\<lambda>coherence_ratio.
       let phi_c = 6321205588 / 10 ^ 10;
           omega = 2 * pi * max (1 / 10 ^ 6) (dominant_frequency sf);
           S_RRF = sigmoid (2 * semantic_margin);
           C_RRF = 1 - \<bar>1 / 2 - cos\<bar>;
           Phi1_geometric = sigmoid (3 / 2 * cos)
       in Inr [(''semantic_margin'', semantic_margin),
               (''cosine_prompt_answer'', cos),
               (''token_entropy'', ent),
               (''dirac_energy'', dirac_energy),
               (''dirac_shell_std'', dirac_shell_std),
               (''freq_low'', freq_low sf),
               (''freq_mid'', freq_mid sf),
               (''freq_high'', freq_high sf),
               (''coherence_ratio'', coherence_ratio),
               (''phi'', phi_c),
               (''omega'', omega),
               (''S_RRF'', S_RRF),
               (''C_RRF'', C_RRF),
               (''dominant_frequency'', dominant_frequency sf),
               (''Phi1_geometric'', Phi1_geometric)]))))))"

subsection \<open>Vectorisation\<close>

text \<open>
  \<^verbatim>\<open>
  x = np.array([feats.get(n, 0.0) for n in names], dtype=np.float64).reshape(1, -1)
  if x.shape[1] < self.expected_features:
      x = np.pad(x, ((0,0),(0, self.expected_features - x.shape[1])), mode="constant")
  elif x.shape[1] > self.expected_features:
      x = x[:, : self.expected_features]
  \<close>
  The one-row matrix is its row. \<open>lookup_all\<close> is the comprehension, \<open>fit_width\<close> the
  padding or truncation, \<open>vectorize\<close> both. \<open>expected_features\<close> is a Python
  \<^verbatim>\<open>int\<close>; a slice \<^verbatim>\<open>[:n]\<close> with negative \<open>n\<close> counts from the end.
\<close>

definition lookup_all :: "feature_set \<Rightarrow> string list \<Rightarrow> real list" where
  "lookup_all feats names = map (\<lambda>n. dict_get feats n 0) names"

definition py_slice_to :: "int \<Rightarrow> 'a list \<Rightarrow> 'a list" where
  "py_slice_to n xs =
     (if n < 0 then take (nat (int (length xs) + n)) xs else take (nat n) xs)"

definition fit_width :: "int \<Rightarrow> real list \<Rightarrow> real list" where
  "fit_width n x =
     (if int (length x) < n then x @ replicate (nat (n - int (length x))) 0
      else if int (length x) > n then py_slice_to n x
      else x)"

definition vectorize :: "feature_set \<Rightarrow> string list \<Rightarrow> int \<Rightarrow> real list" where
  "vectorize feats names n = fit_width n (lookup_all feats names)"

subsection \<open>predict\<close>

text \<open>
  \<^verbatim>\<open>
  try:
      p_good = float(self.meta_logit.predict_proba(x)[0, 1])
  except Exception:
      s = float(self.meta_logit.decision_function(x)[0])
      p_good = sigmoid(s)
  \<close>
  Looking up an absent method raises \<^verbatim>\<open>AttributeError\<close>, inside the \<^verbatim>\<open>try\<close> for
  \<^verbatim>\<open>predict_proba\<close> and inside the handler for \<^verbatim>\<open>decision_function\<close>. The handler
  runs for an \<^verbatim>\<open>Exception\<close> only: any other exception of the probability operation
  propagates and the decision-score operation is not called. An exception raised in
  the handler propagates as it is.
\<close>

definition call_predict_proba :: "classifier \<Rightarrow> real list \<Rightarrow> py_exc + real" where
  "call_predict_proba clf x =
     (case predict_proba clf of
        None \<Rightarrow> Inl (attribute_error clf ''predict_proba'')
      | Some f \<Rightarrow> bind_res (f x) (\<lambda>row. Inr (snd row)))"

definition call_decision_function :: "classifier \<Rightarrow> real list \<Rightarrow> py_exc + real" where
  "call_decision_function clf x =
     (case decision_function clf of
        None \<Rightarrow> Inl (attribute_error clf ''decision_function'')
      | Some f \<Rightarrow> f x)"

definition p_good_of :: "classifier \<Rightarrow> real list \<Rightarrow> py_exc + real" where
  "p_good_of clf x =
     (case call_predict_proba clf x of
        Inr p \<Rightarrow> Inr p
      | Inl (Exc c m) \<Rightarrow> bind_res (call_decision_function clf x) (\<lambda>s. Inr (sigmoid s))
      | Inl (BaseExc c m) \<Rightarrow> Inl (BaseExc c m))"

record prediction =
  p_good :: real
  SRRF :: real
  CRRF :: real
  E_phi :: real
  cosine :: real
  phi :: real
  features :: feature_set

text \<open>
  \<^verbatim>\<open>
  def predict(self, prompt, answer):
      feats = self.extract_features(prompt, answer)
      names = self._feature_names()
      x = ...
      p_good = ...
      return {"p_good": p_good, "SRRF": p_good,
              "CRRF": float(feats.get("C_RRF", 0.0)),
              "E_phi": float(0.25 + 0.5 * feats.get("cosine_prompt_answer", 0.0)),
              "cosine": float(feats.get("cosine_prompt_answer", 0.0)),
              "phi": float(feats.get("phi", 0.6321205588)),
              "features": {k: float(v) for k, v in feats.items()}}
  \<close>
\<close>

definition predict :: "AGIRRFCore \<Rightarrow> string \<Rightarrow> string \<Rightarrow> py_exc + prediction" where
  "predict core prompt answer =
     bind_res (extract_features core prompt answer) (\<lambda>feats.
     bind_res (feature_names core) (\<lambda>names.
       let x = vectorize feats names (expected_features core) in
     bind_res (p_good_of (meta_logit core) x) (\<lambda>pg.
       Inr \<lparr>p_good = pg,
            SRRF = pg,
            CRRF = dict_get feats ''C_RRF'' 0,
            E_phi = 1 / 4 + 1 / 2 * dict_get feats ''cosine_prompt_answer'' 0,
            cosine = dict_get feats ''cosine_prompt_answer'' 0,
            phi = dict_get feats ''phi'' (6321205588 / 10 ^ 10),
            features = feats\<rparr>)))"

subsection \<open>The HTTP handler\<close>

text \<open>
  \<^verbatim>\<open>
  @app.post("/judge")
  def judge(req):
      t0 = time.time()
      try:
          out = core.predict(req.prompt, req.answer)
          return {"scores": {...}, "features": out["features"], "meta": {...}}
      except Exception as e:
          raise HTTPException(status_code=500, detail=str(e))
  \<close>
  The two clock readings are arguments. \<^verbatim>\<open>str(e)\<close> is the exception's message.
  The handler catches an \<^verbatim>\<open>Exception\<close> only; any other exception leaves \<open>judge\<close> as
  it is (\<open>Propagated\<close>).
\<close>

record judge_request =
  req_prompt :: string
  req_answer :: string

datatype judge_raise =
    HTTPException (status_code: nat) (detail: string)
  | Propagated py_exc

record judge_response =
  scores :: "(string \<times> real) list"
  resp_features :: feature_set
  latency_s :: real
  meta_embedder :: string
  meta_meta_logit :: string
  meta_expected_features :: int

definition judge ::
  "AGIRRFCore \<Rightarrow> real \<Rightarrow> real \<Rightarrow> judge_request \<Rightarrow> judge_raise + judge_response" where
  "judge core t0 t1 req =
     (case predict core (req_prompt req) (req_answer req) of
        Inr out \<Rightarrow>
          Inr \<lparr>scores = [(''p_good'', p_good out), (''SRRF'', SRRF out), (''CRRF'', CRRF out),
                         (''E_phi'', E_phi out), (''cosine'', cosine out), (''phi'', phi out)],
               resp_features = features out,
               latency_s = t1 - t0,
               meta_embedder = ''antonypamo/RRFSAVANTMADE'',
               meta_meta_logit = ''antonypamo/RRFSavantMetaLogicV2/logreg_rrf_savant.joblib'',
               meta_expected_features = expected_features core\<rparr>
      | Inl (Exc c m) \<Rightarrow> Inl (HTTPException 500 m)
      | Inl (BaseExc c m) \<Rightarrow> Inl (Propagated (BaseExc c m)))"

section \<open>The numeric primitives in binary64 arithmetic\<close>

subsection \<open>Rounding\<close>

text \<open>
  A finite binary64 number is \<open>m * 2\<^sup>k\<close> with \<open>\<bar>m\<bar> < 2\<^sup>5\<^sup>3\<close> and \<open>- 1074 \<le> k\<close>, below
  \<open>2\<^sup>1\<^sup>0\<^sup>2\<^sup>4\<close> in magnitude. \<open>rne\<close> rounds a real to the nearest integer, a tie to the
  even one. \<open>expo\<close> is the binary exponent of a real, not below that of the subnormal
  numbers, and \<open>ulp\<close> the spacing of the binary64 numbers around it. \<open>rnd\<close> rounds
  a real to the nearest number of that spacing (round to nearest, ties to even, with
  gradual underflow), and \<open>round64\<close> turns a result of \<open>2\<^sup>1\<^sup>0\<^sup>2\<^sup>4\<close> or more in magnitude
  into an infinity.
\<close>

definition rne :: "real \<Rightarrow> int" where
  "rne y =
     (let f = \<lfloor>y\<rfloor>; d = y - of_int f
      in if d < 1 / 2 then f else if 1 / 2 < d then f + 1 else if even f then f else f + 1)"

definition expo :: "real \<Rightarrow> int" where
  "expo x = max (- 1022) \<lfloor>log 2 \<bar>x\<bar>\<rfloor>"

definition ulp :: "real \<Rightarrow> real" where
  "ulp x = 2 powi (expo x - 52)"

definition rnd :: "real \<Rightarrow> real" where
  "rnd x = (if x = 0 then 0 else of_int (rne (x / ulp x)) * ulp x)"

text \<open>
  A binary64 value is finite, an infinity or NaN. The sign of a zero is not
  represented: the two zeros compare equal, and the divisors of the functions below
  are sums and products of non-negative numbers.
\<close>

datatype f64 = Fin real | PInf | NInf | NaN

definition huge :: real where
  "huge = 2 ^ 1024"

definition round64 :: "real \<Rightarrow> f64" where
  "round64 x =
     (let r = rnd x
      in if huge \<le> r then PInf else if r \<le> - huge then NInf else Fin r)"

subsection \<open>Operations\<close>

text \<open>
  The IEEE-754 operations: the exact result, rounded, and the standard results on
  infinities and NaN. numpy's scalar operations are these (a division by zero gives an
  infinity or NaN and a warning, not an exception).
\<close>

fun fneg :: "f64 \<Rightarrow> f64" where
  "fneg (Fin x) = Fin (- x)"
| "fneg PInf = NInf"
| "fneg NInf = PInf"
| "fneg NaN = NaN"

fun fadd :: "f64 \<Rightarrow> f64 \<Rightarrow> f64" where
  "fadd (Fin x) (Fin y) = round64 (x + y)"
| "fadd NaN b = NaN"
| "fadd a NaN = NaN"
| "fadd PInf NInf = NaN"
| "fadd NInf PInf = NaN"
| "fadd PInf b = PInf"
| "fadd a PInf = PInf"
| "fadd NInf b = NInf"
| "fadd a NInf = NInf"

definition fsub :: "f64 \<Rightarrow> f64 \<Rightarrow> f64" where
  "fsub a b = fadd a (fneg b)"

fun fmul :: "f64 \<Rightarrow> f64 \<Rightarrow> f64" where
  "fmul (Fin x) (Fin y) = round64 (x * y)"
| "fmul NaN b = NaN"
| "fmul a NaN = NaN"
| "fmul (Fin x) PInf = (if x = 0 then NaN else if 0 < x then PInf else NInf)"
| "fmul (Fin x) NInf = (if x = 0 then NaN else if 0 < x then NInf else PInf)"
| "fmul PInf (Fin y) = (if y = 0 then NaN else if 0 < y then PInf else NInf)"
| "fmul NInf (Fin y) = (if y = 0 then NaN else if 0 < y then NInf else PInf)"
| "fmul PInf PInf = PInf"
| "fmul PInf NInf = NInf"
| "fmul NInf PInf = NInf"
| "fmul NInf NInf = PInf"

fun fdiv :: "f64 \<Rightarrow> f64 \<Rightarrow> f64" where
  "fdiv (Fin x) (Fin y) =
     (if y = 0 then (if x = 0 then NaN else if 0 < x then PInf else NInf)
      else round64 (x / y))"
| "fdiv NaN b = NaN"
| "fdiv a NaN = NaN"
| "fdiv (Fin x) PInf = Fin 0"
| "fdiv (Fin x) NInf = Fin 0"
| "fdiv PInf (Fin y) = (if 0 \<le> y then PInf else NInf)"
| "fdiv NInf (Fin y) = (if 0 \<le> y then NInf else PInf)"
| "fdiv PInf PInf = NaN"
| "fdiv PInf NInf = NaN"
| "fdiv NInf PInf = NaN"
| "fdiv NInf NInf = NaN"

fun fsqrt :: "f64 \<Rightarrow> f64" where
  "fsqrt (Fin x) = (if x < 0 then NaN else round64 (sqrt x))"
| "fsqrt PInf = PInf"
| "fsqrt NInf = NaN"
| "fsqrt NaN = NaN"

text \<open>
  Python's own float division raises \<^verbatim>\<open>ZeroDivisionError\<close> on a zero divisor. The
  division of two Python integers gives the correctly rounded quotient, or
  \<^verbatim>\<open>OverflowError\<close> when that is not finite.
\<close>

definition py_truediv :: "f64 \<Rightarrow> f64 \<Rightarrow> py_exc + f64" where
  "py_truediv a b =
     (if b = Fin 0 then Inl (Exc ''ZeroDivisionError'' ''float division by zero'')
      else Inr (fdiv a b))"

definition py_int_truediv :: "nat \<Rightarrow> nat \<Rightarrow> py_exc + f64" where
  "py_int_truediv v n =
     (if n = 0 then Inl (Exc ''ZeroDivisionError'' ''division by zero'')
      else case round64 (real v / real n) of
             Fin r \<Rightarrow> Inr (Fin r)
           | _ \<Rightarrow> Inl (Exc ''OverflowError'' ''integer division result too large for a float''))"

text \<open>
  \<^verbatim>\<open>math.exp\<close> and \<^verbatim>\<open>math.log\<close> call the C library. They are taken as correctly
  rounded; the statements below rest on their monotonicity, their sign and on coarse
  bounds only. \<^verbatim>\<open>math.exp\<close> raises \<^verbatim>\<open>OverflowError\<close> when the result is infinite and
  returns zero on underflow; \<^verbatim>\<open>math.log\<close> raises \<^verbatim>\<open>ValueError\<close> on a finite argument
  that is not positive.
\<close>

definition math_exp_f64 :: "real \<Rightarrow> py_exc + f64" where
  "math_exp_f64 x =
     (case round64 (exp x) of
        Fin r \<Rightarrow> Inr (Fin r)
      | _ \<Rightarrow> Inl (Exc ''OverflowError'' ''math range error''))"

definition math_log_f64 :: "f64 \<Rightarrow> py_exc + f64" where
  "math_log_f64 v =
     (case v of
        Fin x \<Rightarrow> (if x \<le> 0 then Inl (Exc ''ValueError'' ''math domain error'')
                   else Inr (round64 (ln x)))
      | PInf \<Rightarrow> Inr PInf
      | NInf \<Rightarrow> Inl (Exc ''ValueError'' ''math domain error'')
      | NaN \<Rightarrow> Inr NaN)"

subsection \<open>sigmoid in binary64\<close>

text \<open>
  \<^verbatim>\<open>
  def sigmoid(x):
      try:
          return 1.0 / (1.0 + math.exp(-x))
      except OverflowError:
          return 0.0 if x < 0 else 1.0
  \<close>
  The argument is a finite float. The handler catches \<^verbatim>\<open>OverflowError\<close> only, from
  any part of the expression.
\<close>

definition sigmoid_f64 :: "real \<Rightarrow> py_exc + f64" where
  "sigmoid_f64 x =
     (case bind_res (math_exp_f64 (- x)) (\<lambda>e. py_truediv (Fin 1) (fadd (Fin 1) e)) of
        Inr v \<Rightarrow> Inr v
      | Inl (Exc c m) \<Rightarrow>
          (if c = ''OverflowError'' then Inr (if x < 0 then Fin 0 else Fin 1)
           else Inl (Exc c m))
      | Inl (BaseExc c m) \<Rightarrow> Inl (BaseExc c m))"

subsection \<open>safe\_cosine in binary64\<close>

text \<open>
  \<^verbatim>\<open>
  def safe_cosine(a, b):
      na, nb = norm(a), norm(b)
      if na == 0.0 or nb == 0.0:
          return 0.0
      return float(np.dot(a, b) / (na * nb))
  \<close>
  The vectors hold finite floats. The dot product rounds every product and every
  partial sum; the order of the summation is the library's, and the model adds from
  left to right. \<^verbatim>\<open>norm\<close> is the rounded square root of the dot product of the vector
  with itself.
\<close>

definition dot_f64 :: "real list \<Rightarrow> real list \<Rightarrow> f64" where
  "dot_f64 a b = foldl fadd (Fin 0) (map2 (\<lambda>x y. fmul (Fin x) (Fin y)) a b)"

definition np_dot_f64 :: "real list \<Rightarrow> real list \<Rightarrow> py_exc + f64" where
  "np_dot_f64 a b =
     (if length a \<noteq> length b then Inl (shapes_not_aligned a b)
      else Inr (dot_f64 a b))"

definition np_norm_f64 :: "real list \<Rightarrow> f64" where
  "np_norm_f64 a = fsqrt (dot_f64 a a)"

definition safe_cosine_f64 :: "real list \<Rightarrow> real list \<Rightarrow> py_exc + f64" where
  "safe_cosine_f64 a b =
     (let na = np_norm_f64 a; nb = np_norm_f64 b in
      if na = Fin 0 \<or> nb = Fin 0 then Inr (Fin 0)
      else bind_res (np_dot_f64 a b) (\<lambda>d. Inr (fdiv d (fmul na nb))))"

subsection \<open>token\_entropy in binary64\<close>

text \<open>
  \<^verbatim>\<open>
  def token_entropy(text):
      if not text:
          return 0.0
      c = Counter(text)
      total = sum(c.values())
      ent = 0.0
      for _, v in c.items():
          p = v / total
          ent -= p * math.log(p + 1e-12)
      return float(ent)
  \<close>
  The counts and their sum are Python integers and exact. \<open>eps_f64\<close> is the literal
  \<^verbatim>\<open>1e-12\<close>, the binary64 number nearest to \<open>10\<^sup>-\<^sup>1\<^sup>2\<close>. \<open>fold_res\<close> is a loop whose body
  can raise.
\<close>

definition eps_f64 :: f64 where
  "eps_f64 = round64 (1 / 10 ^ 12)"

definition entropy_step_f64 :: "nat \<Rightarrow> f64 \<Rightarrow> 'c \<times> nat \<Rightarrow> py_exc + f64" where
  "entropy_step_f64 tot ent kv =
     bind_res (py_int_truediv (snd kv) tot) (\<lambda>p.
     bind_res (math_log_f64 (fadd p eps_f64)) (\<lambda>l.
     Inr (fsub ent (fmul p l))))"

fun fold_res :: "('a \<Rightarrow> 'b \<Rightarrow> py_exc + 'a) \<Rightarrow> 'a \<Rightarrow> 'b list \<Rightarrow> py_exc + 'a" where
  "fold_res f acc [] = Inr acc"
| "fold_res f acc (x # xs) = bind_res (f acc x) (\<lambda>acc'. fold_res f acc' xs)"

definition token_entropy_f64 :: "'c list \<Rightarrow> py_exc + f64" where
  "token_entropy_f64 text =
     (if text = [] then Inr (Fin 0)
      else let c = Counter text; tot = sum_list (map snd c)
           in fold_res (entropy_step_f64 tot) (Fin 0) c)"

text \<open>
  \<open>entropy_floor\<close> is the value of \<^verbatim>\<open>math.log(1.0 + 1e-12)\<close>: the logarithm that the
  loop computes for a character of probability one.
\<close>

definition entropy_floor :: real where
  "entropy_floor = rnd (ln (rnd (1 + rnd (1 / 10 ^ 12))))"

subsection \<open>Notions used in the proofs\<close>

text \<open>
  \<open>recip e\<close> is \<^verbatim>\<open>1.0 / (1.0 + e)\<close> and \<open>sig_val x\<close> the number that \<open>sigmoid_f64 x\<close>
  returns. \<open>nn64\<close> holds of the non-negative binary64 values, \<open>norm_ok\<close> of the values a
  norm can have, and \<open>above b\<close> of the values that are at least \<open>b\<close>. \<open>eps_d\<close> is the
  number \<open>eps_f64\<close>.
\<close>

definition recip :: "real \<Rightarrow> real" where
  "recip e = (if huge \<le> rnd (1 + e) then 0 else rnd (1 / rnd (1 + e)))"

definition sig_val :: "real \<Rightarrow> real" where
  "sig_val x = (if huge \<le> rnd (exp (- x)) then 0 else recip (rnd (exp (- x))))"

definition nn64 :: "f64 \<Rightarrow> bool" where
  "nn64 v = (case v of Fin r \<Rightarrow> 0 \<le> r \<and> rnd r = r | PInf \<Rightarrow> True | _ \<Rightarrow> False)"

definition norm_ok :: "f64 \<Rightarrow> bool" where
  "norm_ok v = (case v of Fin r \<Rightarrow> r = 0 \<or> 2 powi (- 537) \<le> r | PInf \<Rightarrow> True | _ \<Rightarrow> False)"

definition above :: "real \<Rightarrow> f64 \<Rightarrow> bool" where
  "above b v = (v = PInf \<or> (\<exists>r. v = Fin r \<and> b \<le> r))"

definition eps_d :: real where
  "eps_d = 4951760157141521 / 2 ^ 92"

section \<open>Vectorisation: width and contents (C4, C9)\<close>

lemma length_fit_width: "0 \<le> n \<Longrightarrow> length (fit_width n x) = nat n"
  by (auto simp: fit_width_def py_slice_to_def)

lemma fit_width_eq:
  "0 \<le> n \<Longrightarrow> fit_width n x = take (nat n) x @ replicate (nat n - length x) 0"
  by (auto simp: fit_width_def py_slice_to_def)

text \<open>
  Claim C4. For every feature set, lookup order and expected length \<open>n\<close> (a length, so
  \<open>0 \<le> n\<close>), the vector has exactly \<open>n\<close> entries. Entry \<open>i\<close> below both the number
  \<open>k\<close> of names and \<open>n\<close> is the value of the \<open>i\<close>-th name, or \<open>0\<close> when the feature
  set has no such name; the entries from \<open>k\<close> up to \<open>n\<close> are \<open>0\<close>; and when \<open>k > n\<close>
  the vector is the first \<open>n\<close> looked-up values. Nothing can raise: \<open>vectorize\<close> has
  no exception in its type.
\<close>

theorem vectorize_shape:
  assumes "0 \<le> n"
  shows "length (vectorize feats names n) = nat n
       \<and> (\<forall>i. i < length names \<longrightarrow> i < nat n \<longrightarrow>
             vectorize feats names n ! i
               = (case map_of feats (names ! i) of None \<Rightarrow> 0 | Some v \<Rightarrow> v))
       \<and> (\<forall>i. length names \<le> i \<longrightarrow> i < nat n \<longrightarrow> vectorize feats names n ! i = 0)
       \<and> (length names > nat n \<longrightarrow>
             vectorize feats names n = take (nat n) (lookup_all feats names))"
proof -
  have eq: "vectorize feats names n
              = take (nat n) (lookup_all feats names) @ replicate (nat n - length names) 0"
    using assms by (simp add: vectorize_def fit_width_eq lookup_all_def)
  have len: "length (vectorize feats names n) = nat n"
    using assms by (simp add: vectorize_def length_fit_width)
  have front: "vectorize feats names n ! i
                 = (case map_of feats (names ! i) of None \<Rightarrow> 0 | Some v \<Rightarrow> v)"
    if "i < length names" "i < nat n" for i
    using that by (simp add: eq nth_append lookup_all_def dict_get_def)
  have rest: "vectorize feats names n ! i = 0" if "length names \<le> i" "i < nat n" for i
    using that by (simp add: eq nth_append lookup_all_def min_def)
  have trunc: "vectorize feats names n = take (nat n) (lookup_all feats names)"
    if "length names > nat n"
    using that by (simp add: eq)
  show ?thesis using len front rest trunc by blast
qed

theorem vectorize_shape_witness:
  "(0::int) \<le> 3 \<and> vectorize [(''a'', 5)] [''b'', ''a''] 3 = [0, 5, 0]
     \<and> length (vectorize [(''a'', 5)] [''b'', ''a''] 3) = 3"
  using vectorize_shape [of 3 "[(''a'', 5)]" "[''b'', ''a'']"]
  by (simp add: vectorize_def fit_width_def lookup_all_def dict_get_def py_slice_to_def)

text \<open>
  Claim C9. Once a vector has the expected length \<open>n\<close>, the padding or truncation step
  leaves it as it is: applied to the result of \<open>vectorize\<close> it is the identity, and
  applied twice to any vector it does what one application does.
\<close>

theorem vectorize_idempotent:
  assumes "0 \<le> n"
  shows "fit_width n (vectorize f names n) = vectorize f names n
       \<and> fit_width n (fit_width n x) = fit_width n x"
proof -
  have "fit_width n y = y" if "length y = nat n" for y
    using that assms by (simp add: fit_width_def)
  then show ?thesis using assms by (simp add: vectorize_def length_fit_width)
qed

theorem vectorize_idempotent_witness:
  "(0::int) \<le> 3
     \<and> fit_width 3 (vectorize [(''a'', 5)] [''b'', ''a''] 3) = vectorize [(''a'', 5)] [''b'', ''a''] 3
     \<and> fit_width 3 (fit_width 3 [1, 2, 3, 4, 5]) = [1, 2, 3]"
  using vectorize_idempotent [of 3 "[(''a'', 5)]" "[''b'', ''a'']" "[1, 2, 3, 4, 5]"]
  by (simp add: fit_width_def py_slice_to_def)

section \<open>Character counts, and the entropy over the reals\<close>

lemma counter_add_sum: "sum_list (map snd (counter_add c m)) = Suc (sum_list (map snd m))"
  by (induction c m rule: counter_add.induct) auto

lemma counter_add_positive:
  "\<forall>kv \<in> set m. 0 < snd kv \<Longrightarrow> \<forall>kv \<in> set (counter_add c m). 0 < snd kv"
  by (induction c m rule: counter_add.induct) auto

lemma foldl_counter_sum:
  "sum_list (map snd (foldl (\<lambda>m c. counter_add c m) m s)) = sum_list (map snd m) + length s"
  by (induction s arbitrary: m) (auto simp: counter_add_sum)

lemma foldl_counter_positive:
  "\<forall>kv \<in> set m. 0 < snd kv \<Longrightarrow>
   \<forall>kv \<in> set (foldl (\<lambda>m c. counter_add c m) m s). 0 < snd kv"
proof (induction s arbitrary: m)
  case Nil
  then show ?case by simp
next
  case (Cons c s)
  have "\<forall>kv \<in> set (counter_add c m). 0 < snd kv"
    using Cons.prems by (rule counter_add_positive)
  then show ?case using Cons.IH by simp
qed

lemma Counter_total: "sum_list (map snd (Counter s)) = length s"
  by (simp add: Counter_def foldl_counter_sum)

lemma Counter_positive: "kv \<in> set (Counter s) \<Longrightarrow> 0 < snd kv"
  using foldl_counter_positive [of "[]" s] by (simp add: Counter_def)

lemma foldl_entropy_step:
  "foldl (entropy_step tot) acc c
     = acc - sum_list (map (\<lambda>kv. real (snd kv) / real tot
                                 * ln (real (snd kv) / real tot + 1 / 10 ^ 12)) c)"
  by (induction c arbitrary: acc) (auto simp: entropy_step_def Let_def)

lemma entropy_terms_bound:
  fixes e :: real
  assumes "0 < tot" and "0 < e"
  shows "\<forall>kv \<in> set c. 0 < snd kv \<Longrightarrow> sum_list (map snd c) \<le> tot \<Longrightarrow>
         sum_list (map (\<lambda>kv. real (snd kv) / real tot
                              * ln (real (snd kv) / real tot + e)) c)
           \<le> real (sum_list (map snd c)) / real tot * ln (1 + e)"
proof (induction c)
  case Nil
  then show ?case by simp
next
  case (Cons kv c)
  let ?p = "real (snd kv) / real tot"
  have v: "0 < snd kv" and le: "snd kv \<le> tot"
    using Cons.prems by auto
  have p0: "0 < ?p" using v assms(1) by simp
  have p1: "?p \<le> 1" using le assms(1) by simp
  have a: "0 < ?p + e" using p0 assms(2) by (rule add_pos_pos)
  have b: "?p + e \<le> 1 + e" using p1 by (rule add_right_mono)
  have "ln (?p + e) \<le> ln (1 + e)"
    using b a by (rule ln_mono)
  then have t: "?p * ln (?p + e) \<le> ?p * ln (1 + e)"
    using p0 by (intro mult_left_mono) auto
  have ih: "sum_list (map (\<lambda>kv. real (snd kv) / real tot
                              * ln (real (snd kv) / real tot + e)) c)
           \<le> real (sum_list (map snd c)) / real tot * ln (1 + e)"
    using Cons.IH Cons.prems by auto
  have "real (sum_list (map snd (kv # c))) / real tot * ln (1 + e)
          = ?p * ln (1 + e) + real (sum_list (map snd c)) / real tot * ln (1 + e)"
    by (simp add: add_divide_distrib distrib_right)
  with t ih show ?case by simp
qed

lemma token_entropy_lower: "- ln (1 + 1 / 10 ^ 12) \<le> token_entropy s"
proof (cases "s = []")
  case True
  then show ?thesis by (simp add: token_entropy_def)
next
  case False
  let ?c = "Counter s"
  have tot: "sum_list (map snd ?c) = length s" by (rule Counter_total)
  have pos: "0 < length s" using False by simp
  have "sum_list (map (\<lambda>kv. real (snd kv) / real (length s)
                              * ln (real (snd kv) / real (length s) + 1 / 10 ^ 12)) ?c)
           \<le> real (sum_list (map snd ?c)) / real (length s) * ln (1 + 1 / 10 ^ 12)"
    using pos Counter_positive [of _ s] tot
      entropy_terms_bound [of "length s" "1 / 10 ^ 12" ?c] by simp
  also have "\<dots> = ln (1 + 1 / 10 ^ 12)" using pos tot by simp
  finally show ?thesis
    using False by (simp add: token_entropy_def Let_def tot foldl_entropy_step)
qed

lemma foldl_counter_replicate:
  "foldl (\<lambda>m c. counter_add c m) [(c, k)] (replicate n c) = [(c, k + n)]"
  by (induction n arbitrary: k) auto

lemma Counter_replicate: "0 < n \<Longrightarrow> Counter (replicate n c) = [(c, n)]"
  using foldl_counter_replicate [of c 1 "n - 1"]
  by (cases n) (auto simp: Counter_def)

lemma eps_ln: "0 < ln (1 + 1 / 10 ^ 12 :: real)" "ln (1 + 1 / 10 ^ 12 :: real) < 1 / 10 ^ 12"
proof -
  show "0 < ln (1 + 1 / 10 ^ 12 :: real)" by (subst ln_gt_zero_iff) auto
  show "ln (1 + 1 / 10 ^ 12 :: real) < 1 / 10 ^ 12"
    using ln_add_one_self_less_self [of "1 / 10 ^ 12 :: real"] by simp
qed

section \<open>Spectral bands (C7, C8, C10)\<close>

lemma sum_list_all_zero:
  fixes f :: "'a \<Rightarrow> 'b::monoid_add"
  shows "(\<And>x. x \<in> set xs \<Longrightarrow> f x = 0) \<Longrightarrow> sum_list (map f xs) = 0"
  by (induction xs) auto

lemma dft_coeff_zero: "dft_coeff (replicate n 0) k = 0"
  unfolding dft_coeff_def
  by (rule sum_list_all_zero) (auto simp: in_set_enumerate_eq)

lemma rfft_length:
  "vec \<noteq> [] \<Longrightarrow> rfft vec = Inr (map (dft_coeff vec) [0 ..< length vec div 2 + 1])"
  by (cases vec) (auto simp: rfft_def)

lemma rfft_zero:
  assumes "0 < n"
  shows "rfft (replicate n 0) = Inr (replicate (n div 2 + 1) 0)"
proof -
  have f: "dft_coeff (replicate n 0) = (\<lambda>k. 0)"
    by (rule ext) (rule dft_coeff_zero)
  have "map (dft_coeff (replicate n 0)) [0 ..< n div 2 + 1] = replicate (n div 2 + 1) 0"
    unfolding f map_replicate_const by simp
  then show ?thesis using assms unfolding rfft_def by simp
qed

lemma argmax_from_le: "\<forall>v \<in> set vs. v \<le> bv \<Longrightarrow> argmax_from vs i best bv = best"
  by (induction vs arbitrary: i) auto

lemma np_argmax_zero: "0 < m \<Longrightarrow> np_argmax (replicate m 0) = Inr 0"
  by (cases m) (auto simp: np_argmax_def argmax_from_le)

lemma np_argmax_total: "y \<noteq> [] \<Longrightarrow> \<exists>i. np_argmax y = Inr i"
  by (cases y) (auto simp: np_argmax_def)

lemma np_mean_zero: "\<forall>v \<in> set ys. v = 0 \<Longrightarrow> np_mean ys = 0"
  using sum_list_all_zero [of ys "\<lambda>v. v"] by (simp add: np_mean_def)

lemma py_div_max: "py_div a (real (max 1 m)) = Inr (a / real (max 1 m))"
  by (simp add: py_div_def max_def)

lemma band_features_nonempty:
  assumes "y \<noteq> []" and "np_argmax y = Inr i"
  shows "band_features y =
           Inr \<lparr>freq_low = np_mean (take (max 1 (length y div 6)) y),
                freq_mid = (if 3 \<le> length y
                            then np_mean (slice (max 1 (length y div 6)) (max 2 (length y div 3)) y)
                            else 0),
                freq_high = (if 3 \<le> length y then np_mean (drop (max 2 (length y div 3)) y) else 0),
                dominant_frequency = real i / real (max 1 (length y - 1))\<rparr>"
proof -
  have "py_div (real i) (real (max 1 (length y - 1)))
          = Inr (real i / real (max 1 (length y - 1)))"
    by (rule py_div_max)
  then show ?thesis
    unfolding band_features_def Let_def bind_res_def using assms by simp
qed

lemma band_features_total: "\<exists>sf. band_features y = Inr sf"
proof (cases "y = []")
  case True
  then show ?thesis by (simp add: band_features_def)
next
  case False
  then obtain i where "np_argmax y = Inr i" using np_argmax_total by blast
  then show ?thesis using False band_features_nonempty by blast
qed

lemma band_features_few_bins:
  assumes "length y < 3" "band_features y = Inr sf"
  shows "freq_mid sf = 0 \<and> freq_high sf = 0"
proof (cases "y = []")
  case True
  then show ?thesis using assms(2) by (auto simp: band_features_def)
next
  case False
  then obtain i where "np_argmax y = Inr i" using np_argmax_total by blast
  from band_features_nonempty [OF False this] assms show ?thesis by auto
qed

lemma band_features_one_bin:
  "band_features [v] = Inr \<lparr>freq_low = v, freq_mid = 0, freq_high = 0, dominant_frequency = 0\<rparr>"
  by (simp add: band_features_def bind_res_def np_argmax_def py_div_def np_mean_def)

lemma band_features_zero:
  assumes "0 < m"
  shows "band_features (replicate m 0)
           = Inr \<lparr>freq_low = 0, freq_mid = 0, freq_high = 0, dominant_frequency = 0\<rparr>"
proof -
  have a: "np_mean (take k (replicate m 0)) = 0" for k
    by (rule np_mean_zero) simp
  have b: "np_mean (drop k (replicate m 0)) = 0" for k
    by (rule np_mean_zero) simp
  have c: "np_mean (slice j k (replicate m 0)) = 0" for j k
    by (rule np_mean_zero) (simp add: slice_def)
  have ne: "replicate m (0::real) \<noteq> []" using assms by simp
  show ?thesis
    unfolding band_features_nonempty [OF ne np_argmax_zero [OF assms]] a b c by simp
qed

lemma band_slices_nonempty:
  assumes "1 \<le> length y"
  shows "take (max 1 (length y div 6)) y \<noteq> []"
    and "3 \<le> length y \<Longrightarrow> slice (max 1 (length y div 6)) (max 2 (length y div 3)) y \<noteq> []"
    and "3 \<le> length y \<Longrightarrow> drop (max 2 (length y div 3)) y \<noteq> []"
proof -
  show "take (max 1 (length y div 6)) y \<noteq> []" using assms by (cases y) auto
  show "slice (max 1 (length y div 6)) (max 2 (length y div 3)) y \<noteq> []" if "3 \<le> length y"
  proof -
    have "max 1 (length y div 6) < max 2 (length y div 3)"
      and "max 1 (length y div 6) < length y"
      using that by arith+
    then have "0 < length (slice (max 1 (length y div 6)) (max 2 (length y div 3)) y)"
      unfolding slice_def by simp
    then show ?thesis by auto
  qed
  show "drop (max 2 (length y div 3)) y \<noteq> []" if "3 \<le> length y"
  proof -
    have "max 2 (length y div 3) < length y" using that by arith
    then have "0 < length (drop (max 2 (length y div 3)) y)"
      unfolding length_drop by (rule zero_less_diff [THEN iffD2])
    then show ?thesis by auto
  qed
qed

lemma spectrum_features_zero:
  "0 < n \<Longrightarrow> spectrum_features (replicate n 0)
     = Inr \<lparr>freq_low = 0, freq_mid = 0, freq_high = 0, dominant_frequency = 0\<rparr>"
  using band_features_zero [of "n div 2 + 1"]
  by (simp add: spectrum_features_def rfft_zero bind_res_def del: replicate_Suc)

lemma spectrum_features_total:
  "vec \<noteq> [] \<Longrightarrow> \<exists>sf. spectrum_features vec = Inr sf"
  using band_features_total
  by (simp add: spectrum_features_def rfft_length bind_res_def)

lemma spectrum_features_single:
  "spectrum_features [x]
     = Inr \<lparr>freq_low = \<bar>x\<bar>, freq_mid = 0, freq_high = 0, dominant_frequency = 0\<rparr>"
  by (simp add: spectrum_features_def rfft_def bind_res_def band_features_one_bin dft_coeff_def)

lemma dft_coeff_pair: "dft_coeff [1, - 1] 0 = 0" "dft_coeff [1, - 1] (Suc 0) = 2"
  by (simp_all add: dft_coeff_def cis_cnj [symmetric])

lemma rfft_pair: "rfft [1, - 1] = Inr [0, 2]"
  by (simp add: rfft_def dft_coeff_pair upt_rec [of 0] upt_rec [of 1] upt_rec [of "Suc 0"])

text \<open>
  On a non-empty vector the part of claim C8 about short spectra holds: with fewer than
  three bins the middle and high bands are \<open>0\<close>, and a result is returned.
\<close>

lemma spectrum_features_short:
  assumes "vec \<noteq> []" and "length vec div 2 + 1 < 3"
  shows "\<exists>sf. spectrum_features vec = Inr sf \<and> freq_mid sf = 0 \<and> freq_high sf = 0"
proof -
  let ?y = "map cmod (map (dft_coeff vec) [0 ..< length vec div 2 + 1])"
  obtain sf where sf: "band_features ?y = Inr sf" using band_features_total by blast
  have "length ?y < 3" using assms(2) by simp
  then have "freq_mid sf = 0 \<and> freq_high sf = 0" using sf by (rule band_features_few_bins)
  moreover have "spectrum_features vec = Inr sf"
    using sf assms(1) by (simp add: spectrum_features_def rfft_length bind_res_def)
  ultimately show ?thesis by blast
qed

text \<open>
  Claim C8. The claim says that the decomposition is total for every input vector and
  yields four zeros where the spectrum is empty. The test \<^verbatim>\<open>y.size == 0\<close> does return
  four zeros (\<open>band_features []\<close>), but it stands after the transform, and the
  transform raises on the only input that could give an empty spectrum: on the empty
  vector \<open>spectrum_features\<close> raises \<^verbatim>\<open>ValueError\<close>.
\<close>

theorem spectrum_features_empty_raises:
  "spectrum_features []
     = Inl (Exc ''ValueError'' ''invalid number of data points (0) specified'')
   \<and> band_features []
     = Inr \<lparr>freq_low = 0, freq_mid = 0, freq_high = 0, dominant_frequency = 0\<rparr>"
  by (simp add: spectrum_features_def rfft_def bind_res_def band_features_def)

text \<open>
  Claim C10, as amended. On every non-empty vector \<open>spectrum_features\<close> returns a result:
  the divisor \<open>max 1 (bin_count - 1)\<close> is never zero, so the division never raises. A
  spectrum has exactly one bin when the input has length one, and there the dominant
  frequency is \<open>0\<close>.
\<close>

theorem dominant_frequency_total:
  assumes "vec \<noteq> []"
  shows "(\<exists>sf. spectrum_features vec = Inr sf)
       \<and> (\<forall>a m. py_div a (real (max 1 (m - 1))) = Inr (a / real (max 1 (m - 1))))
       \<and> (length vec = 1 \<longrightarrow>
            spectrum_features vec
              = Inr \<lparr>freq_low = \<bar>hd vec\<bar>, freq_mid = 0, freq_high = 0,
                     dominant_frequency = 0\<rparr>)"
proof -
  have "spectrum_features vec
          = Inr \<lparr>freq_low = \<bar>hd vec\<bar>, freq_mid = 0, freq_high = 0, dominant_frequency = 0\<rparr>"
    if "length vec = 1"
  proof -
    from that obtain x where "vec = [x]" by (cases vec) auto
    then show ?thesis by (simp add: spectrum_features_single)
  qed
  then show ?thesis using spectrum_features_total [OF assms] py_div_max by blast
qed

theorem dominant_frequency_total_witness:
  "[3 :: real] \<noteq> []
     \<and> spectrum_features [3]
         = Inr \<lparr>freq_low = 3, freq_mid = 0, freq_high = 0, dominant_frequency = 0\<rparr>"
  using dominant_frequency_total [of "[3]"] by simp

text \<open>
  The claim as written also covers inputs of length two. Such an input has two bins,
  and its dominant frequency can be \<open>1\<close>: the vector \<open>[1, -1]\<close> has the spectrum
  \<open>[0, 2]\<close>.
\<close>

theorem dominant_frequency_length_two:
  "length [1, - 1 :: real] = 2
     \<and> rfft [1, - 1] = Inr [0, 2]
     \<and> spectrum_features [1, - 1]
         = Inr \<lparr>freq_low = 0, freq_mid = 0, freq_high = 0, dominant_frequency = 1\<rparr>"
  by (simp add: spectrum_features_def rfft_pair bind_res_def band_features_def
        np_argmax_def py_div_def np_mean_def)

section \<open>Cosine similarity over the reals\<close>

lemma cauchy_step:
  fixes x y S A B :: real
  assumes "S * S \<le> A * B" "0 \<le> A" "0 \<le> B"
  shows "(x * y + S) * (x * y + S) \<le> (x * x + A) * (y * y + B)"
proof -
  have "sqrt (S * S) \<le> sqrt (A * B)" using assms(1) by (rule real_sqrt_le_mono)
  then have S: "\<bar>S\<bar> \<le> sqrt A * sqrt B" by (simp add: real_sqrt_mult)
  define u where "u = \<bar>x\<bar> * sqrt B"
  define v where "v = \<bar>y\<bar> * sqrt A"
  have "0 \<le> (u - v) * (u - v)" by simp
  then have uv: "2 * (u * v) \<le> u * u + v * v" by (simp add: algebra_simps)
  have sB: "sqrt B * sqrt B = B" using assms(3) by simp
  have sA: "sqrt A * sqrt A = A" using assms(2) by simp
  have "u * u = (\<bar>x\<bar> * \<bar>x\<bar>) * (sqrt B * sqrt B)" unfolding u_def by (simp only: mult_ac)
  then have uu: "u * u = x * x * B" unfolding sB by simp
  have "v * v = (\<bar>y\<bar> * \<bar>y\<bar>) * (sqrt A * sqrt A)" unfolding v_def by (simp only: mult_ac)
  then have vv: "v * v = y * y * A" unfolding sA by simp
  have "x * y * S \<le> \<bar>x * y * S\<bar>" by simp
  also have "\<dots> = \<bar>x\<bar> * \<bar>y\<bar> * \<bar>S\<bar>" by (simp add: abs_mult)
  also have "\<dots> \<le> \<bar>x\<bar> * \<bar>y\<bar> * (sqrt A * sqrt B)"
    using S by (intro mult_left_mono) auto
  also have "\<dots> = u * v" unfolding u_def v_def by (simp only: mult_ac)
  finally have "2 * (x * y * S) \<le> x * x * B + y * y * A" using uv uu vv by linarith
  moreover have "(x * y + S) * (x * y + S) = x * x * (y * y) + 2 * (x * y * S) + S * S"
    by (simp add: algebra_simps)
  moreover have "(x * x + A) * (y * y + B) = x * x * (y * y) + (x * x * B + y * y * A) + A * B"
    by (simp add: algebra_simps)
  ultimately show ?thesis using assms(1) by linarith
qed

lemma sum_squares_nonneg: "0 \<le> sum_list (map (\<lambda>x. x * x) (a :: real list))"
  by (induction a) auto

lemma cauchy_schwarz_list:
  fixes a b :: "real list"
  assumes "length a = length b"
  shows "sum_list (map2 (*) a b) * sum_list (map2 (*) a b)
           \<le> sum_list (map (\<lambda>x. x * x) a) * sum_list (map (\<lambda>x. x * x) b)"
  using assms
proof (induction a b rule: list_induct2)
  case Nil
  then show ?case by simp
next
  case (Cons x xs y ys)
  show ?case using cauchy_step [OF Cons.IH sum_squares_nonneg sum_squares_nonneg, of x y]
    by simp
qed

lemma np_norm_nonneg: "0 \<le> np_norm a"
  by (simp add: np_norm_def sum_squares_nonneg)

lemma np_norm_zero_iff: "np_norm a = 0 \<longleftrightarrow> (\<forall>x \<in> set a. x = 0)"
proof -
  have "sum_list (map (\<lambda>x. x * x) a) = 0 \<longleftrightarrow> (\<forall>x \<in> set a. x = 0)"
  proof (induction a)
    case Nil
    then show ?case by simp
  next
    case (Cons x xs)
    have "x * x + sum_list (map (\<lambda>x. x * x) xs) = 0
            \<longleftrightarrow> x * x = 0 \<and> sum_list (map (\<lambda>x. x * x) xs) = 0"
      using sum_squares_nonneg [of xs] by (intro add_nonneg_eq_0_iff) auto
    then show ?case using Cons.IH by simp
  qed
  then show ?thesis by (simp add: np_norm_def)
qed

lemma dot_le_norms:
  assumes "length a = length b"
  shows "\<bar>sum_list (map2 (*) a b)\<bar> \<le> np_norm a * np_norm b"
proof -
  let ?d = "sum_list (map2 (*) a b)"
  have "sqrt (?d * ?d) \<le> sqrt (sum_list (map (\<lambda>x. x * x) a) * sum_list (map (\<lambda>x. x * x) b))"
    using cauchy_schwarz_list [OF assms] by (rule real_sqrt_le_mono)
  then show ?thesis by (simp add: np_norm_def real_sqrt_mult)
qed

lemma safe_cosine_zero_norm:
  "np_norm a = 0 \<or> np_norm b = 0 \<Longrightarrow> safe_cosine a b = Inr 0"
  by (auto simp: safe_cosine_def)

lemma safe_cosine_zero_right: "safe_cosine a (replicate n 0) = Inr 0"
  by (rule safe_cosine_zero_norm) (simp add: np_norm_zero_iff)

lemma safe_cosine_range:
  assumes "length a = length b"
  shows "\<exists>c. safe_cosine a b = Inr c \<and> - 1 \<le> c \<and> c \<le> 1"
proof (cases "np_norm a = 0 \<or> np_norm b = 0")
  case True
  then show ?thesis by (simp add: safe_cosine_zero_norm)
next
  case False
  let ?d = "sum_list (map2 (*) a b)"
  let ?m = "np_norm a * np_norm b"
  have pos: "0 < ?m" using False np_norm_nonneg [of a] np_norm_nonneg [of b]
    by (simp add: less_le)
  have "\<bar>?d\<bar> \<le> ?m" using assms by (rule dot_le_norms)
  then have "- ?m \<le> ?d" and "?d \<le> ?m" by linarith+
  then have "- 1 \<le> ?d / ?m \<and> ?d / ?m \<le> 1"
    using pos by (simp add: pos_le_divide_eq pos_divide_le_eq)
  moreover have "safe_cosine a b = Inr (?d / ?m)"
    using False assms by (simp add: safe_cosine_def np_dot_def bind_res_def)
  ultimately show ?thesis by blast
qed

section \<open>Feature extraction (C7)\<close>

lemma one_plus_entropy_pos: "0 < 1 + token_entropy s"
proof -
  have "ln (1 + 1 / 10 ^ 12 :: real) < 1" using eps_ln(2) by simp
  then show ?thesis using token_entropy_lower [of s] by linarith
qed

lemma py_div_entropy:
  "py_div x (1 + token_entropy s) = Inr (x / (1 + token_entropy s))"
  using one_plus_entropy_pos [of s] by (simp add: py_div_def)

lemma np_sub_same_length: "length a = length b \<Longrightarrow> np_sub a b = Inr (map2 (-) a b)"
  by (simp add: np_sub_def)

lemma extract_features_shape:
  assumes "extract_features core p a = Inr feats"
  shows "\<exists>d. map_of feats ''dominant_frequency'' = Some d
           \<and> map_of feats ''omega'' = Some (2 * pi * max (1 / 10 ^ 6) d)"
  using assms
  by (auto simp: extract_features_def bind_res_def Let_def split: sum.splits)

lemma omega_positive: "0 < 2 * pi * max (1 / 10 ^ 6) (d :: real)"
proof -
  have "(0::real) < 1 / 10 ^ 6" by simp
  then have "0 < max (1 / 10 ^ 6) d" by (rule less_max_iff_disj [THEN iffD2, OF disjI1])
  then show ?thesis by simp
qed

lemma extract_features_zero_answer:
  assumes "embedder core p = Inr ep" and "embedder core a = Inr (replicate n 0)"
    and "0 < n" and "length ep = n"
  shows "\<exists>feats. extract_features core p a = Inr feats
           \<and> map_of feats ''freq_low'' = Some 0
           \<and> map_of feats ''freq_mid'' = Some 0
           \<and> map_of feats ''freq_high'' = Some 0
           \<and> map_of feats ''dominant_frequency'' = Some 0
           \<and> map_of feats ''omega'' = Some (2 * pi * (1 / 10 ^ 6))"
proof -
  have sub: "np_sub ep (replicate n 0) = Inr (map2 (-) ep (replicate n 0))"
    using assms(4) by (simp add: np_sub_same_length)
  have mx: "max (1 / 10 ^ 6) (0::real) = 1 / 10 ^ 6" by simp
  show ?thesis
    unfolding extract_features_def
    by (simp only: assms(1,2) bind_res_def sum.case Let_def safe_cosine_zero_right sub
          spectrum_features_zero [OF assms(3)] py_div_entropy spectrum.simps mx)
       (simp)
qed

lemma extract_features_total:
  assumes "embedder core p = Inr ep" and "embedder core a = Inr ea"
    and "length ep = length ea" and "ea \<noteq> []"
  shows "\<exists>feats. extract_features core p a = Inr feats"
proof -
  obtain c where c: "safe_cosine ep ea = Inr c"
    using safe_cosine_range [OF assms(3)] by blast
  obtain sf where sf: "spectrum_features ea = Inr sf"
    using spectrum_features_total [OF assms(4)] by blast
  show ?thesis
    unfolding extract_features_def
    by (simp only: assms(1,2) bind_res_def sum.case Let_def c sf py_div_entropy
          np_sub_same_length [OF assms(3)])
       simp
qed

text \<open>
  Claim C7. When the answer embedding is a zero vector (of the embedder's dimension
  \<open>n \<ge> 1\<close>, which the prompt embedding shares), extraction succeeds and the features
  \<open>freq_low\<close>, \<open>freq_mid\<close>, \<open>freq_high\<close> and \<open>dominant_frequency\<close> are \<open>0\<close> and \<open>omega\<close>
  is \<open>2 * pi * 10\<^sup>-\<^sup>6\<close>. Whenever extraction succeeds, \<open>omega\<close> is
  \<open>2 * pi * max 10\<^sup>-\<^sup>6 dominant_frequency\<close>, which is positive.
\<close>

theorem extract_features_omega:
  assumes "embedder core p = Inr ep" and "embedder core a = Inr (replicate n 0)"
    and "0 < n" and "length ep = n"
  shows "(\<exists>feats. extract_features core p a = Inr feats
           \<and> map_of feats ''freq_low'' = Some 0
           \<and> map_of feats ''freq_mid'' = Some 0
           \<and> map_of feats ''freq_high'' = Some 0
           \<and> map_of feats ''dominant_frequency'' = Some 0
           \<and> map_of feats ''omega'' = Some (2 * pi * (1 / 10 ^ 6)))
       \<and> (\<forall>core' p' a' fs. extract_features core' p' a' = Inr fs \<longrightarrow>
            (\<exists>d. map_of fs ''dominant_frequency'' = Some d
               \<and> map_of fs ''omega'' = Some (2 * pi * max (1 / 10 ^ 6) d)
               \<and> 0 < 2 * pi * max (1 / 10 ^ 6) d))"
  using extract_features_zero_answer [OF assms] extract_features_shape omega_positive
  by blast

theorem extract_features_omega_witness:
  "(0::nat) < 2
   \<and> (\<exists>feats.
        extract_features
          \<lparr>embedder = (\<lambda>s. if s = ''q'' then Inr [3, 4] else Inr [0, 0]),
           meta_logit = \<lparr>type_name = ''M'', feature_names_in = NoNames,
                         predict_proba = None, decision_function = None\<rparr>,
           expected_features = 15\<rparr> ''q'' ''x'' = Inr feats
        \<and> map_of feats ''dominant_frequency'' = Some 0
        \<and> map_of feats ''omega'' = Some (2 * pi * (1 / 10 ^ 6)))"
  using extract_features_omega
    [of "\<lparr>embedder = (\<lambda>s. if s = ''q'' then Inr [3, 4] else Inr [0, 0]),
          meta_logit = \<lparr>type_name = ''M'', feature_names_in = NoNames,
                        predict_proba = None, decision_function = None\<rparr>,
          expected_features = 15\<rparr>" "''q''" "[3, 4]" "''x''" "Suc (Suc 0)"]
  by (simp, blast)

section \<open>Prediction: the two scoring operations (C1, C3)\<close>

lemma exp2_le: "exp (2::real) \<le> 9"
proof -
  have "exp (2::real) = exp 1 * exp 1" by (simp flip: exp_add)
  also have "\<dots> \<le> 3 * 3" using exp_le by (intro mult_mono) auto
  finally show ?thesis by simp
qed

lemma exp_minus2_bounds:
  "135327 / 1000000 < exp (- 2 :: real)" "exp (- 2 :: real) < 135405 / 1000000"
proof -
  obtain t :: real where t: "\<bar>t\<bar> \<le> \<bar>- 2\<bar>"
    and e: "exp (- 2) = (\<Sum>m<12. ((- 2) ^ m) / fact m) + (exp t / fact 12) * (- 2) ^ 12"
    using Maclaurin_exp_le [of "- 2" 12] by blast
  have s: "(\<Sum>m<12::nat. ((- 2 :: real) ^ m) / fact m) = 21101 / 155925"
    by (simp add: eval_nat_numeral lessThan_Suc fact_numeral)
  have "exp t \<le> exp 2" using t by simp
  then have up: "exp t \<le> 9" using exp2_le by linarith
  have lo: "0 < exp t" by simp
  have f: "(fact 12 :: real) = 479001600" by (simp add: fact_numeral)
  have r: "(exp t / fact 12) * (- 2) ^ 12 = exp t * (4096 / 479001600)"
    unfolding f by simp
  have eq: "exp (- 2 :: real) = 21101 / 155925 + exp t * (4096 / 479001600)"
    using e s r by simp
  have r0: "0 < exp t * (4096 / 479001600)" using lo by simp
  have r9: "exp t * (4096 / 479001600) \<le> 9 * (4096 / 479001600)"
    using up by (intro mult_right_mono) auto
  have c1: "(135327 / 1000000 :: real) < 21101 / 155925" by simp
  have c2: "(21101 / 155925 + 9 * (4096 / 479001600) :: real) < 135405 / 1000000" by simp
  show "135327 / 1000000 < exp (- 2 :: real)" using eq r0 c1 by linarith
  show "exp (- 2 :: real) < 135405 / 1000000" using eq r9 c2 by linarith
qed

lemma DBL_MAX_ge_one: "1 \<le> DBL_MAX"
proof -
  have "(1::real) \<le> 2 ^ 53 - 1" by simp
  moreover have "(1::real) \<le> 2 ^ 971" by (rule one_le_power) simp
  ultimately have "(1::real) * 1 \<le> (2 ^ 53 - 1) * 2 ^ 971" by (intro mult_mono) auto
  then show ?thesis by (simp add: DBL_MAX_def)
qed

lemma math_exp_nonpos:
  assumes "x \<le> 0"
  shows "math_exp x = Some (exp x)"
proof -
  have "exp x \<le> 1" using assms by simp
  then have "\<not> DBL_MAX < exp x" using DBL_MAX_ge_one by linarith
  then show ?thesis by (simp add: math_exp_def)
qed

lemma sigmoid_nonneg_arg: "0 \<le> x \<Longrightarrow> sigmoid x = 1 / (1 + exp (- x))"
  by (simp add: sigmoid_def math_exp_nonpos)

lemma sigmoid_two: "\<bar>sigmoid 2 - 8808 / 10000\<bar> < 1 / 10000"
proof -
  let ?e = "exp (- 2 :: real)"
  have s: "sigmoid 2 = 1 / (1 + ?e)" by (simp add: sigmoid_nonneg_arg)
  have pos: "0 < 1 + ?e" by (simp add: add_pos_pos)
  have "(1 + ?e) * (8807 / 10000) < 1" using exp_minus2_bounds(2) by simp
  then have lo: "8807 / 10000 < 1 / (1 + ?e)" using pos by (simp only: pos_less_divide_eq mult.commute)
  have "1 < (1 + ?e) * (8809 / 10000)" using exp_minus2_bounds(1) by simp
  then have hi: "1 / (1 + ?e) < 8809 / 10000" using pos by (simp only: pos_divide_less_eq mult.commute)
  show ?thesis unfolding s abs_less_iff using lo hi by linarith
qed

lemma call_predict_proba_value:
  "predict_proba clf = Some f \<Longrightarrow> f x = Inr (p0, p1) \<Longrightarrow> call_predict_proba clf x = Inr p1"
  by (simp add: call_predict_proba_def bind_res_def)

lemma call_predict_proba_raises:
  assumes "predict_proba clf = None
           \<or> (\<exists>f c m. predict_proba clf = Some f \<and> f x = Inl (Exc c m))"
  shows "\<exists>c m. call_predict_proba clf x = Inl (Exc c m)"
  using assms by (auto simp: call_predict_proba_def bind_res_def attribute_error_def)

lemma call_predict_proba_base:
  "predict_proba clf = Some f \<Longrightarrow> f x = Inl (BaseExc c m)
     \<Longrightarrow> call_predict_proba clf x = Inl (BaseExc c m)"
  by (simp add: call_predict_proba_def bind_res_def)

lemma call_decision_function_value:
  "decision_function clf = Some g \<Longrightarrow> call_decision_function clf x = g x"
  by (simp add: call_decision_function_def)

lemma call_decision_function_raises:
  assumes "(decision_function clf = None \<and> e = attribute_error clf ''decision_function'')
           \<or> (\<exists>g. decision_function clf = Some g \<and> g x = Inl e)"
  shows "call_decision_function clf x = Inl e"
  using assms by (auto simp: call_decision_function_def)

lemma p_good_of_proba: "call_predict_proba clf x = Inr pr \<Longrightarrow> p_good_of clf x = Inr pr"
  by (simp add: p_good_of_def)

lemma p_good_of_fallback:
  "call_predict_proba clf x = Inl (Exc c m) \<Longrightarrow> call_decision_function clf x = Inr s
     \<Longrightarrow> p_good_of clf x = Inr (sigmoid s)"
  by (simp add: p_good_of_def bind_res_def)

lemma p_good_of_base:
  "call_predict_proba clf x = Inl (BaseExc c m) \<Longrightarrow> p_good_of clf x = Inl (BaseExc c m)"
  by (simp add: p_good_of_def)

lemma p_good_of_both_fail:
  "call_predict_proba clf x = Inl (Exc c m) \<Longrightarrow> call_decision_function clf x = Inl e
     \<Longrightarrow> p_good_of clf x = Inl e"
  by (simp add: p_good_of_def bind_res_def)

lemma predict_p_good:
  assumes "extract_features core p a = Inr feats"
    and "feature_names core = Inr names"
    and "p_good_of (meta_logit core) (vectorize feats names (expected_features core)) = Inr pg"
  shows "\<exists>r. predict core p a = Inr r \<and> p_good r = pg \<and> SRRF r = pg \<and> features r = feats"
  using assms by (simp add: predict_def bind_res_def Let_def)

lemma predict_fails:
  assumes "extract_features core p a = Inr feats"
    and "feature_names core = Inr names"
    and "p_good_of (meta_logit core) (vectorize feats names (expected_features core)) = Inl e"
  shows "predict core p a = Inl e"
  using assms by (simp add: predict_def bind_res_def Let_def)

text \<open>
  Claim C3. With the features extracted and vectorised to \<open>x\<close>: when the probability
  operation answers with the row \<open>(p0, p1)\<close>, \<open>predict\<close> returns \<open>p_good = p1\<close>, the
  probability of the positive class, whatever the decision-score operation is. When
  the probability operation is absent or raises an \<^verbatim>\<open>Exception\<close>, and the decision-score
  operation returns \<open>s\<close>, \<open>predict\<close> returns \<open>p_good = sigmoid s\<close>. An exception of the
  probability operation that is not an \<^verbatim>\<open>Exception\<close> propagates instead. And
  \<open>sigmoid 2\<close> is \<open>0.8808\<close> to four places.
\<close>

theorem predict_fallback:
  assumes "extract_features core p a = Inr feats"
    and "feature_names core = Inr names"
    and "x = vectorize feats names (expected_features core)"
  shows "(\<forall>f p0 p1. predict_proba (meta_logit core) = Some f \<and> f x = Inr (p0, p1) \<longrightarrow>
            (\<exists>r. predict core p a = Inr r \<and> p_good r = p1 \<and> SRRF r = p1))
       \<and> (\<forall>g s. (predict_proba (meta_logit core) = None
                  \<or> (\<exists>f c m. predict_proba (meta_logit core) = Some f \<and> f x = Inl (Exc c m)))
                 \<and> decision_function (meta_logit core) = Some g \<and> g x = Inr s \<longrightarrow>
            (\<exists>r. predict core p a = Inr r \<and> p_good r = sigmoid s \<and> SRRF r = sigmoid s))
       \<and> (\<forall>f c m. predict_proba (meta_logit core) = Some f \<and> f x = Inl (BaseExc c m) \<longrightarrow>
            predict core p a = Inl (BaseExc c m))
       \<and> \<bar>sigmoid 2 - 8808 / 10000\<bar> < 1 / 10000"
proof -
  let ?clf = "meta_logit core"
  have a: "\<exists>r. predict core p a = Inr r \<and> p_good r = p1 \<and> SRRF r = p1"
    if "predict_proba ?clf = Some f" "f x = Inr (p0, p1)" for f p0 p1
    using predict_p_good [OF assms(1,2)]
      p_good_of_proba [OF call_predict_proba_value [OF that]] assms(3) by blast
  have b: "\<exists>r. predict core p a = Inr r \<and> p_good r = sigmoid s \<and> SRRF r = sigmoid s"
    if h: "predict_proba ?clf = None
           \<or> (\<exists>f c m. predict_proba ?clf = Some f \<and> f x = Inl (Exc c m))"
      "decision_function ?clf = Some g" "g x = Inr s" for g s
  proof -
    obtain c m where "call_predict_proba ?clf x = Inl (Exc c m)"
      using call_predict_proba_raises [OF h(1)] by blast
    moreover have "call_decision_function ?clf x = Inr s"
      using call_decision_function_value [OF h(2), of x] h(3) by simp
    ultimately have "p_good_of ?clf x = Inr (sigmoid s)" by (rule p_good_of_fallback)
    then show ?thesis using predict_p_good [OF assms(1,2)] assms(3) by blast
  qed
  have c: "predict core p a = Inl (BaseExc c m)"
    if "predict_proba ?clf = Some f" "f x = Inl (BaseExc c m)" for f c m
    using predict_fails [OF assms(1,2)]
      p_good_of_base [OF call_predict_proba_base [OF that]] assms(3) by blast
  show ?thesis using a b c sigmoid_two by blast
qed

theorem predict_fallback_witness:
  "(\<exists>r. predict \<lparr>embedder = Inr \<circ> map of_char,
                   meta_logit = \<lparr>type_name = ''Stub'', feature_names_in = NoNames,
                                 predict_proba = Some (\<lambda>x. Inr (3 / 10, 7 / 10)),
                                 decision_function = Some (\<lambda>x. Inr 2)\<rparr>,
                   expected_features = 15\<rparr> ''hi'' ''ok'' = Inr r
        \<and> p_good r = 7 / 10)
   \<and> (\<exists>r. predict \<lparr>embedder = Inr \<circ> map of_char,
                     meta_logit = \<lparr>type_name = ''Stub'', feature_names_in = NoNames,
                                   predict_proba = None,
                                   decision_function = Some (\<lambda>x. Inr 2)\<rparr>,
                     expected_features = 15\<rparr> ''hi'' ''ok'' = Inr r
          \<and> p_good r = sigmoid 2)
   \<and> predict \<lparr>embedder = Inr \<circ> map of_char,
              meta_logit = \<lparr>type_name = ''Stub'', feature_names_in = NoNames,
                            predict_proba = Some (\<lambda>x. Inl (BaseExc ''KeyboardInterrupt'' [])),
                            decision_function = Some (\<lambda>x. Inr 2)\<rparr>,
              expected_features = 15\<rparr> ''hi'' ''ok''
       = Inl (BaseExc ''KeyboardInterrupt'' [])"
proof -
  define clf1 :: classifier
    where "clf1 = \<lparr>type_name = ''Stub'', feature_names_in = NoNames,
                    predict_proba = Some (\<lambda>x. Inr (3 / 10, 7 / 10)),
                    decision_function = Some (\<lambda>x. Inr 2)\<rparr>"
  define clf2 :: classifier
    where "clf2 = \<lparr>type_name = ''Stub'', feature_names_in = NoNames, predict_proba = None,
                    decision_function = Some (\<lambda>x. Inr 2)\<rparr>"
  define clf3 :: classifier
    where "clf3 = \<lparr>type_name = ''Stub'', feature_names_in = NoNames,
                    predict_proba = Some (\<lambda>x. Inl (BaseExc ''KeyboardInterrupt'' [])),
                    decision_function = Some (\<lambda>x. Inr 2)\<rparr>"
  define core1
    where "core1 = \<lparr>embedder = Inr \<circ> map of_char, meta_logit = clf1, expected_features = 15\<rparr>"
  define core2
    where "core2 = \<lparr>embedder = Inr \<circ> map of_char, meta_logit = clf2, expected_features = 15\<rparr>"
  define core3
    where "core3 = \<lparr>embedder = Inr \<circ> map of_char, meta_logit = clf3, expected_features = 15\<rparr>"
  obtain feats1 where f1: "extract_features core1 ''hi'' ''ok'' = Inr feats1"
    using extract_features_total [of core1 "''hi''" "map of_char ''hi''" "''ok''" "map of_char ''ok''"]
    by (auto simp: core1_def)
  obtain feats2 where f2: "extract_features core2 ''hi'' ''ok'' = Inr feats2"
    using extract_features_total [of core2 "''hi''" "map of_char ''hi''" "''ok''" "map of_char ''ok''"]
    by (auto simp: core2_def)
  obtain feats3 where f3: "extract_features core3 ''hi'' ''ok'' = Inr feats3"
    using extract_features_total [of core3 "''hi''" "map of_char ''hi''" "''ok''" "map of_char ''ok''"]
    by (auto simp: core3_def)
  have n1: "feature_names core1 = Inr canonical_names"
    by (simp add: feature_names_def core1_def clf1_def)
  have n2: "feature_names core2 = Inr canonical_names"
    by (simp add: feature_names_def core2_def clf2_def)
  have n3: "feature_names core3 = Inr canonical_names"
    by (simp add: feature_names_def core3_def clf3_def)
  have "predict_proba (meta_logit core1) = Some (\<lambda>x. Inr (3 / 10, 7 / 10))"
    by (simp add: core1_def clf1_def)
  then have r1: "\<exists>r. predict core1 ''hi'' ''ok'' = Inr r \<and> p_good r = 7 / 10"
    using predict_fallback [OF f1 n1 refl] by blast
  have "predict_proba (meta_logit core2) = None"
    and "decision_function (meta_logit core2) = Some (\<lambda>x. Inr 2)"
    by (simp_all add: core2_def clf2_def)
  then have r2: "\<exists>r. predict core2 ''hi'' ''ok'' = Inr r \<and> p_good r = sigmoid 2"
    using predict_fallback [OF f2 n2 refl] by blast
  have "predict_proba (meta_logit core3) = Some (\<lambda>x. Inl (BaseExc ''KeyboardInterrupt'' []))"
    by (simp add: core3_def clf3_def)
  then have r3: "predict core3 ''hi'' ''ok'' = Inl (BaseExc ''KeyboardInterrupt'' [])"
    using predict_fallback [OF f3 n3 refl] by blast
  show ?thesis
    using r1 r2 r3 by (simp add: core1_def core2_def core3_def clf1_def clf2_def clf3_def)
qed

text \<open>
  Claim C1, as amended. When the probability operation is absent or raises an
  \<^verbatim>\<open>Exception\<close>, and the decision-score operation is absent or raises too, \<open>predict\<close>
  returns no result: it fails with the exception of the decision-score operation, as
  that operation raised it (an \<^verbatim>\<open>AttributeError\<close> when the operation is absent). The
  source has no \<^verbatim>\<open>PredictionError\<close> or \<^verbatim>\<open>ClassifierFailure\<close> and wraps nothing. (Python
  records the handled exception as the \<^verbatim>\<open>__context__\<close> of the new one; that link is
  neither the exception's class nor its message and is not modelled.) When that
  exception is an \<^verbatim>\<open>Exception\<close>, the handler \<open>judge\<close> turns it into one HTTP 500 error
  whose detail is its message; otherwise it leaves \<open>judge\<close> as it is.
\<close>

theorem predict_both_fail:
  assumes "extract_features core p a = Inr feats"
    and "feature_names core = Inr names"
    and "x = vectorize feats names (expected_features core)"
    and "predict_proba (meta_logit core) = None
         \<or> (\<exists>f c m. predict_proba (meta_logit core) = Some f \<and> f x = Inl (Exc c m))"
    and "(decision_function (meta_logit core) = None
          \<and> e2 = attribute_error (meta_logit core) ''decision_function'')
         \<or> (\<exists>g. decision_function (meta_logit core) = Some g \<and> g x = Inl e2)"
  shows "predict core p a = Inl e2
       \<and> judge core t0 t1 \<lparr>req_prompt = p, req_answer = a\<rparr>
           = Inl (case e2 of
                    Exc c m \<Rightarrow> HTTPException 500 m
                  | BaseExc c m \<Rightarrow> Propagated e2)"
proof -
  obtain c m where "call_predict_proba (meta_logit core) x = Inl (Exc c m)"
    using call_predict_proba_raises [OF assms(4)] by blast
  moreover have "call_decision_function (meta_logit core) x = Inl e2"
    using assms(5) by (rule call_decision_function_raises)
  ultimately have "p_good_of (meta_logit core) x = Inl e2" by (rule p_good_of_both_fail)
  then have "predict core p a = Inl e2"
    using predict_fails [OF assms(1,2)] assms(3) by simp
  then show ?thesis by (cases e2) (simp_all add: judge_def)
qed

theorem predict_both_fail_witness:
  "predict \<lparr>embedder = Inr \<circ> map of_char,
            meta_logit = \<lparr>type_name = ''Stub'', feature_names_in = NoNames,
                          predict_proba = Some (\<lambda>x. Inl (Exc ''ValueError'' ''bad input'')),
                          decision_function = Some (\<lambda>x. Inl (Exc ''RuntimeError'' ''not fitted''))\<rparr>,
            expected_features = 15\<rparr> ''hi'' ''ok''
     = Inl (Exc ''RuntimeError'' ''not fitted'')
   \<and> judge \<lparr>embedder = Inr \<circ> map of_char,
            meta_logit = \<lparr>type_name = ''Stub'', feature_names_in = NoNames,
                          predict_proba = Some (\<lambda>x. Inl (Exc ''ValueError'' ''bad input'')),
                          decision_function = Some (\<lambda>x. Inl (Exc ''RuntimeError'' ''not fitted''))\<rparr>,
            expected_features = 15\<rparr> 0 1 \<lparr>req_prompt = ''hi'', req_answer = ''ok''\<rparr>
     = Inl (HTTPException 500 ''not fitted'')"
proof -
  define clf :: classifier
    where "clf = \<lparr>type_name = ''Stub'', feature_names_in = NoNames,
                   predict_proba = Some (\<lambda>x. Inl (Exc ''ValueError'' ''bad input'')),
                   decision_function = Some (\<lambda>x. Inl (Exc ''RuntimeError'' ''not fitted''))\<rparr>"
  define core
    where "core = \<lparr>embedder = Inr \<circ> map of_char, meta_logit = clf, expected_features = 15\<rparr>"
  obtain feats where f: "extract_features core ''hi'' ''ok'' = Inr feats"
    using extract_features_total [of core "''hi''" "map of_char ''hi''" "''ok''" "map of_char ''ok''"]
    by (auto simp: core_def)
  have n: "feature_names core = Inr canonical_names"
    by (simp add: feature_names_def core_def clf_def)
  have pp: "predict_proba (meta_logit core) = None
            \<or> (\<exists>f c m. predict_proba (meta_logit core) = Some f
                  \<and> f (vectorize feats canonical_names (expected_features core)) = Inl (Exc c m))"
    by (simp add: core_def clf_def)
  have df: "(decision_function (meta_logit core) = None
             \<and> Exc ''RuntimeError'' ''not fitted''
                 = attribute_error (meta_logit core) ''decision_function'')
            \<or> (\<exists>g. decision_function (meta_logit core) = Some g
                  \<and> g (vectorize feats canonical_names (expected_features core))
                      = Inl (Exc ''RuntimeError'' ''not fitted''))"
    by (simp add: core_def clf_def)
  have "predict core ''hi'' ''ok'' = Inl (Exc ''RuntimeError'' ''not fitted'')
        \<and> judge core 0 1 \<lparr>req_prompt = ''hi'', req_answer = ''ok''\<rparr>
            = Inl (HTTPException 500 ''not fitted'')"
    using predict_both_fail [OF f n refl pp df, of 0 1] by simp
  then show ?thesis by (simp add: core_def clf_def)
qed

text \<open>
  The claim as written fails: with a classifier that has neither operation, what
  \<open>predict\<close> raises is the plain \<^verbatim>\<open>AttributeError\<close> of the missing
  \<^verbatim>\<open>decision_function\<close>, not a composite error, and the failure of \<^verbatim>\<open>predict_proba\<close>
  is not in it.
\<close>

theorem predict_raises_attribute_error:
  "predict \<lparr>embedder = Inr \<circ> map of_char,
            meta_logit = \<lparr>type_name = ''Stub'', feature_names_in = NoNames,
                          predict_proba = None, decision_function = None\<rparr>,
            expected_features = 15\<rparr> ''hi'' ''ok''
     = Inl (Exc ''AttributeError''
              ([CHR 0x27] @ ''Stub'' @ [CHR 0x27] @ '' object has no attribute ''
               @ [CHR 0x27] @ ''decision_function'' @ [CHR 0x27]))"
proof -
  define clf :: classifier
    where "clf = \<lparr>type_name = ''Stub'', feature_names_in = NoNames,
                   predict_proba = None, decision_function = None\<rparr>"
  define core
    where "core = \<lparr>embedder = Inr \<circ> map of_char, meta_logit = clf, expected_features = 15\<rparr>"
  obtain feats where f: "extract_features core ''hi'' ''ok'' = Inr feats"
    using extract_features_total [of core "''hi''" "map of_char ''hi''" "''ok''" "map of_char ''ok''"]
    by (auto simp: core_def)
  have n: "feature_names core = Inr canonical_names"
    by (simp add: feature_names_def core_def clf_def)
  have "p_good_of (meta_logit core)
          (vectorize feats canonical_names (expected_features core))
            = Inl (attribute_error clf ''decision_function'')"
    by (simp add: p_good_of_def call_predict_proba_def call_decision_function_def
          bind_res_def core_def clf_def attribute_error_def)
  then have "predict core ''hi'' ''ok'' = Inl (attribute_error clf ''decision_function'')"
    using predict_fails [OF f n] by blast
  then show ?thesis by (simp add: core_def clf_def attribute_error_def)
qed

section \<open>Binary64 rounding\<close>

text \<open>
  Rounding is monotone, odd, the identity on the binary64 numbers and idempotent; a
  non-zero result is at least \<open>2\<^sup>-\<^sup>1\<^sup>0\<^sup>7\<^sup>4\<close> in magnitude; and a result is known once
  the binade of the argument and the nearest integer multiple of the spacing are.
\<close>

lemma rne_of_int [simp]: "rne (of_int n) = n"
  by (simp add: rne_def)

lemma rne_eqI:
  assumes "of_int n - 1 / 2 < y" and "y < of_int n + 1 / 2"
  shows "rne y = n"
proof (cases "of_int n \<le> y")
  case True
  then have f: "\<lfloor>y\<rfloor> = n" using assms(2) by (intro floor_unique) auto
  then show ?thesis using assms(2) by (simp add: rne_def Let_def)
next
  case False
  then have f: "\<lfloor>y\<rfloor> = n - 1" using assms(1) by (intro floor_unique) auto
  then show ?thesis using assms(1) by (simp add: rne_def Let_def)
qed

lemma rne_cases:
  "rne y = \<lfloor>y\<rfloor> \<or> rne y = \<lfloor>y\<rfloor> + 1"
  by (simp add: rne_def Let_def)

lemma rne_ge_floor: "\<lfloor>y\<rfloor> \<le> rne y"
  using rne_cases [of y] by auto

lemma rne_le_ceiling: "rne y \<le> \<lceil>y\<rceil>"
proof (cases "y = of_int \<lfloor>y\<rfloor>")
  case True
  then have "rne y = \<lfloor>y\<rfloor>" by (metis rne_of_int)
  then show ?thesis by (simp add: floor_le_ceiling)
next
  case False
  then have "\<lceil>y\<rceil> = \<lfloor>y\<rfloor> + 1" by (simp add: ceiling_altdef)
  then show ?thesis using rne_cases [of y] by auto
qed

lemma rne_mono:
  assumes "x \<le> y"
  shows "rne x \<le> rne y"
proof (cases "\<lfloor>x\<rfloor> = \<lfloor>y\<rfloor>")
  case True
  have "y - of_int \<lfloor>y\<rfloor> = y - of_int \<lfloor>x\<rfloor>" using True by simp
  then have "x - of_int \<lfloor>x\<rfloor> \<le> y - of_int \<lfloor>y\<rfloor>" using assms by simp
  then show ?thesis using True by (auto simp: rne_def Let_def)
next
  case False
  then have "\<lfloor>x\<rfloor> < \<lfloor>y\<rfloor>" using floor_mono [OF assms] by simp
  then have "\<lfloor>x\<rfloor> + 1 \<le> \<lfloor>y\<rfloor>" by simp
  then show ?thesis using rne_cases [of x] rne_ge_floor [of y] by auto
qed

lemma rne_ge: "of_int n \<le> y \<Longrightarrow> n \<le> rne y"
  using rne_mono [of "of_int n" y] by simp

lemma rne_le: "y \<le> of_int n \<Longrightarrow> rne y \<le> n"
  using rne_mono [of y "of_int n"] by simp

lemma rne_minus: "rne (- y) = - rne y"
proof (cases "y = of_int \<lfloor>y\<rfloor>")
  case True
  then obtain n where "y = of_int n" by blast
  then have "rne (- y) = - n" "rne y = n"
    using rne_of_int [of "- n"] by simp_all
  then show ?thesis by simp
next
  case False
  then have c: "\<lceil>y\<rceil> = \<lfloor>y\<rfloor> + 1" by (simp add: ceiling_altdef)
  have f: "\<lfloor>- y\<rfloor> = - \<lfloor>y\<rfloor> - 1" using c by (simp add: floor_minus)
  have d: "- y - of_int \<lfloor>- y\<rfloor> = 1 - (y - of_int \<lfloor>y\<rfloor>)" by (simp add: f)
  show ?thesis
    unfolding rne_def Let_def d unfolding f
    by (auto simp: )
qed

lemma two_powr_powi: "(2::real) powr of_int k = 2 powi k"
  by (rule powr_real_of_int') auto

lemma ulp_pos [simp]: "0 < ulp x"
  by (simp add: ulp_def)

lemma ulp_nonneg [simp]: "0 \<le> ulp x"
  by (simp add: ulp_def)

lemma expo_ge [simp]: "- 1022 \<le> expo x"
  by (simp add: expo_def)

lemma expo_minus [simp]: "expo (- x) = expo x"
  by (simp add: expo_def)

lemma ulp_minus [simp]: "ulp (- x) = ulp x"
  by (simp add: ulp_def)

lemma expo_mono:
  assumes "x \<noteq> 0" and "\<bar>x\<bar> \<le> \<bar>y\<bar>"
  shows "expo x \<le> expo y"
proof -
  have "log 2 \<bar>x\<bar> \<le> log 2 \<bar>y\<bar>" using assms by (intro log_mono) auto
  then have "\<lfloor>log 2 \<bar>x\<bar>\<rfloor> \<le> \<lfloor>log 2 \<bar>y\<bar>\<rfloor>" by (rule floor_mono)
  then show ?thesis by (auto simp: expo_def)
qed

lemma abs_less_expo:
  assumes "x \<noteq> 0"
  shows "\<bar>x\<bar> < 2 powi (expo x + 1)"
proof -
  let ?k = "\<lfloor>log 2 \<bar>x\<bar>\<rfloor>"
  have "\<bar>x\<bar> < 2 powr (of_int ?k + 1)"
    using floor_log_eq_powr_iff [of "\<bar>x\<bar>" 2 ?k] assms by simp
  then have "\<bar>x\<bar> < 2 powi (?k + 1)" using two_powr_powi [of "?k + 1"] by simp
  also have "\<dots> \<le> 2 powi (expo x + 1)"
    by (intro power_int_increasing) (auto simp: expo_def)
  finally show ?thesis .
qed

lemma expo_le_abs:
  assumes "x \<noteq> 0" and "- 1022 < expo x"
  shows "2 powi (expo x) \<le> \<bar>x\<bar>"
proof -
  let ?k = "\<lfloor>log 2 \<bar>x\<bar>\<rfloor>"
  have e: "expo x = ?k" using assms(2) by (auto simp: expo_def max_def split: if_splits)
  have "2 powr (of_int ?k) \<le> \<bar>x\<bar>"
    using floor_log_eq_powr_iff [of "\<bar>x\<bar>" 2 ?k] assms(1) by simp
  then show ?thesis using two_powr_powi [of ?k] e by simp
qed

lemma expo_eqI:
  assumes "2 powi e \<le> \<bar>x\<bar>" and "\<bar>x\<bar> < 2 powi (e + 1)" and "- 1022 \<le> e"
  shows "expo x = e"
proof -
  have pos: "0 < \<bar>x\<bar>" using assms(1) zero_less_power_int [of "2::real" e] by linarith
  have "2 powr (of_int e) \<le> \<bar>x\<bar> \<and> \<bar>x\<bar> < 2 powr (of_int e + 1)"
    using assms(1,2) two_powr_powi [of e] two_powr_powi [of "e + 1"] by simp
  then have "\<lfloor>log 2 \<bar>x\<bar>\<rfloor> = e"
    using floor_log_eq_powr_iff [of "\<bar>x\<bar>" 2 e] pos by simp
  then show ?thesis using assms(3) by (simp add: expo_def)
qed

lemma expo_subnormal:
  assumes "x \<noteq> 0" and "\<bar>x\<bar> < 2 powi (- 1022)"
  shows "expo x = - 1022"
proof (rule ccontr)
  assume "expo x \<noteq> - 1022"
  then have gt: "- 1022 < expo x" using expo_ge [of x] by linarith
  then have "2 powi (expo x) \<le> \<bar>x\<bar>" using assms(1) by (intro expo_le_abs) auto
  moreover have "(2::real) powi (- 1022) \<le> 2 powi (expo x)"
    using gt by (intro power_int_increasing) auto
  ultimately show False using assms(2) by linarith
qed

lemma powi_53: "(2::real) powi 53 * 2 powi (e - 52) = 2 powi (e + 1)"
proof -
  have a: "(2::real) powi (53 + (e - 52)) = 2 powi 53 * 2 powi (e - 52)"
    by (rule power_int_add) simp
  have b: "53 + (e - 52) = e + 1" by simp
  show ?thesis using a unfolding b by (rule sym)
qed

lemma powi_52: "(2::real) powi 52 * 2 powi (e - 52) = 2 powi e"
proof -
  have a: "(2::real) powi (52 + (e - 52)) = 2 powi 52 * 2 powi (e - 52)"
    by (rule power_int_add) simp
  have b: "52 + (e - 52) = e" by simp
  show ?thesis using a unfolding b by (rule sym)
qed

lemma of_int_pow2: "real_of_int (2 ^ n) = 2 powi (int n)"
  by simp

lemma rnd_zero [simp]: "rnd 0 = 0"
  by (simp add: rnd_def)

lemma rnd_minus: "rnd (- x) = - rnd x"
  by (simp add: rnd_def rne_minus)

lemma rnd_nonneg: "0 \<le> x \<Longrightarrow> 0 \<le> rnd x"
proof -
  assume "0 \<le> x"
  then have "0 \<le> x / ulp x" by simp
  then have "0 \<le> rne (x / ulp x)" using rne_ge [of 0] by simp
  then show ?thesis by (simp add: rnd_def)
qed

lemma rnd_nonpos: "x \<le> 0 \<Longrightarrow> rnd x \<le> 0"
  using rnd_nonneg [of "- x"] by (simp add: rnd_minus)

lemma rnd_upper:
  assumes "0 < x"
  shows "rnd x \<le> 2 powi (expo x + 1)"
proof -
  have "x / ulp x \<le> 2 powi (expo x + 1) / ulp x"
    using abs_less_expo [of x] assms by (simp add: divide_right_mono)
  also have "\<dots> = 2 powi 53"
    unfolding ulp_def by (simp flip: power_int_diff)
  finally have "x / ulp x \<le> of_int (2 ^ 53)" by simp
  then have "rne (x / ulp x) \<le> 2 ^ 53" by (rule rne_le)
  then have "of_int (rne (x / ulp x)) * ulp x \<le> of_int (2 ^ 53) * ulp x"
    by (intro mult_right_mono) (auto simp flip: of_int_le_iff)
  also have "\<dots> = 2 powi (expo x + 1)"
    unfolding ulp_def of_int_pow2 using powi_53 [of "expo x"] by simp
  finally show ?thesis using assms by (simp add: rnd_def)
qed

lemma rnd_lower:
  assumes "0 < x" and "- 1022 < expo x"
  shows "2 powi (expo x) \<le> rnd x"
proof -
  have "2 powi (expo x) / ulp x \<le> x / ulp x"
    using expo_le_abs [of x] assms by (simp add: divide_right_mono)
  moreover have "2 powi (expo x) / ulp x = 2 powi 52"
    unfolding ulp_def by (simp flip: power_int_diff)
  ultimately have "of_int (2 ^ 52) \<le> x / ulp x" by simp
  then have r: "2 ^ 52 \<le> rne (x / ulp x)" by (rule rne_ge)
  have "2 powi (expo x) = of_int (2 ^ 52) * ulp x"
    unfolding ulp_def of_int_pow2 using powi_52 [of "expo x"] by simp
  also have "\<dots> \<le> of_int (rne (x / ulp x)) * ulp x"
    using r by (intro mult_right_mono) (auto simp flip: of_int_le_iff)
  finally show ?thesis using assms by (simp add: rnd_def)
qed

lemma rnd_mono_pos:
  assumes "0 < x" and "x \<le> y"
  shows "rnd x \<le> rnd y"
proof -
  have y: "0 < y" using assms by linarith
  have le: "expo x \<le> expo y" using assms by (intro expo_mono) auto
  show ?thesis
  proof (cases "expo x = expo y")
    case True
    then have u: "ulp x = ulp y" by (simp add: ulp_def)
    have "x / ulp y \<le> y / ulp y" using assms(2) by (simp add: divide_right_mono)
    then have "rne (x / ulp y) \<le> rne (y / ulp y)" by (rule rne_mono)
    then have "of_int (rne (x / ulp y)) * ulp y \<le> of_int (rne (y / ulp y)) * ulp y"
      by (intro mult_right_mono) auto
    then show ?thesis using assms y u by (simp add: rnd_def)
  next
    case False
    then have lt: "expo x + 1 \<le> expo y" using le by linarith
    then have "- 1022 < expo y" using expo_ge [of x] by linarith
    then have "2 powi (expo y) \<le> rnd y" using y by (intro rnd_lower) auto
    moreover have "rnd x \<le> 2 powi (expo x + 1)" using assms(1) by (rule rnd_upper)
    moreover have "(2::real) powi (expo x + 1) \<le> 2 powi (expo y)"
      using lt by (intro power_int_increasing) auto
    ultimately show ?thesis by linarith
  qed
qed

lemma rnd_mono:
  assumes "x \<le> y"
  shows "rnd x \<le> rnd y"
proof -
  consider "0 < x" | "x \<le> 0" "0 \<le> y" | "y < 0" by linarith
  then show ?thesis
  proof cases
    case 1
    then show ?thesis using assms by (rule rnd_mono_pos)
  next
    case 2
    then show ?thesis using rnd_nonpos [of x] rnd_nonneg [of y] by linarith
  next
    case 3
    then have "rnd (- y) \<le> rnd (- x)" using assms by (intro rnd_mono_pos) auto
    then show ?thesis by (simp add: rnd_minus)
  qed
qed

lemma powi_shift:
  assumes "e \<le> k + 52"
  shows "(2::real) powi k / 2 powi (e - 52) = of_int (2 ^ nat (k + 52 - e))"
proof -
  have j: "k - (e - 52) = int (nat (k + 52 - e))" using assms by simp
  have "(2::real) powi k / 2 powi (e - 52) = 2 powi (k - (e - 52))"
    by (rule power_int_diff [symmetric]) simp
  also have "\<dots> = 2 powi int (nat (k + 52 - e))" by (simp only: j)
  also have "\<dots> = 2 ^ nat (k + 52 - e)" by (rule power_int_of_nat)
  also have "\<dots> = of_int (2 ^ nat (k + 52 - e))" by simp
  finally show ?thesis .
qed

lemma ulp_nz [simp]: "ulp x \<noteq> 0"
  using ulp_pos [of x] by linarith

lemma rnd_fix:
  assumes "x = of_int m * 2 powi k" and "\<bar>m\<bar> < 2 ^ 53" and "- 1074 \<le> k"
  shows "rnd x = x"
proof (cases "x = 0")
  case True
  then show ?thesis by simp
next
  case False
  let ?e = "expo x"
  have ax: "\<bar>x\<bar> = of_int \<bar>m\<bar> * 2 powi k" by (simp add: assms(1) abs_mult)
  have "of_int \<bar>m\<bar> < (of_int (2 ^ 53) :: real)" using assms(2) by (simp only: of_int_less_iff)
  then have "\<bar>x\<bar> < of_int (2 ^ 53) * 2 powi k"
    unfolding ax by (intro mult_strict_right_mono) auto
  also have "\<dots> = 2 powi (k + 53)"
    unfolding of_int_pow2 using power_int_add [of "2::real" 53 k] by (simp add: add.commute)
  finally have up: "\<bar>x\<bar> < 2 powi (k + 53)" .
  have le: "?e \<le> k + 52"
  proof (rule ccontr)
    assume "\<not> ?e \<le> k + 52"
    then have gt: "k + 53 \<le> ?e" by simp
    then have "- 1022 < ?e" using assms(3) by linarith
    then have "2 powi ?e \<le> \<bar>x\<bar>" using False by (intro expo_le_abs) auto
    moreover have "(2::real) powi (k + 53) \<le> 2 powi ?e"
      using gt by (intro power_int_increasing) auto
    ultimately show False using up by linarith
  qed
  have "x / ulp x = of_int m * (2 powi k / 2 powi (?e - 52))"
    by (simp add: assms(1) ulp_def)
  also have "\<dots> = of_int m * of_int (2 ^ nat (k + 52 - ?e))"
    using powi_shift [OF le] by simp
  also have "\<dots> = of_int (m * 2 ^ nat (k + 52 - ?e))" by simp
  finally have q: "x / ulp x = of_int (m * 2 ^ nat (k + 52 - ?e))" .
  have "rnd x = of_int (rne (x / ulp x)) * ulp x" using False by (simp add: rnd_def)
  also have "\<dots> = (x / ulp x) * ulp x" unfolding q rne_of_int ..
  also have "\<dots> = x" by simp
  finally show ?thesis .
qed

lemma rnd_pow2: "- 1074 \<le> k \<Longrightarrow> rnd (2 powi k) = 2 powi k"
  by (rule rnd_fix [of _ 1]) auto

lemma rnd_int: "\<bar>m\<bar> < 2 ^ 53 \<Longrightarrow> rnd (of_int m) = of_int m"
  by (rule rnd_fix [of _ m 0]) auto

lemma rnd_grid:
  assumes "x \<noteq> 0"
  shows "rnd x = of_int (rne (x / ulp x)) * 2 powi (expo x - 52)"
    and "\<bar>rne (x / ulp x)\<bar> \<le> 2 ^ 53"
proof -
  show "rnd x = of_int (rne (x / ulp x)) * 2 powi (expo x - 52)"
    using assms by (simp add: rnd_def ulp_def)
  have "\<bar>x\<bar> / ulp x \<le> 2 powi (expo x + 1) / ulp x"
    using abs_less_expo [OF assms] by (intro divide_right_mono) auto
  also have "\<dots> = 2 powi 53 * 2 powi (expo x - 52) / ulp x"
    using powi_53 [of "expo x"] by simp
  also have "\<dots> = of_int (2 ^ 53)" unfolding ulp_def of_int_pow2 by simp
  finally have b: "\<bar>x\<bar> / ulp x \<le> of_int (2 ^ 53)" .
  have "x / ulp x \<le> \<bar>x\<bar> / ulp x" by (intro divide_right_mono) auto
  then have "x / ulp x \<le> of_int (2 ^ 53)" using b by linarith
  then have u: "rne (x / ulp x) \<le> 2 ^ 53" by (rule rne_le)
  have "- (\<bar>x\<bar> / ulp x) \<le> x / ulp x"
    using divide_right_mono [of "- \<bar>x\<bar>" x "ulp x"] by simp
  then have "of_int (- (2 ^ 53)) \<le> x / ulp x" using b by simp
  then have l: "- (2 ^ 53) \<le> rne (x / ulp x)" by (rule rne_ge)
  show "\<bar>rne (x / ulp x)\<bar> \<le> 2 ^ 53" using u l by linarith
qed

lemma rnd_idem: "rnd (rnd x) = rnd x"
proof (cases "x = 0")
  case True
  then show ?thesis by simp
next
  case False
  let ?n = "rne (x / ulp x)"
  let ?e = "expo x"
  have g: "rnd x = of_int ?n * 2 powi (?e - 52)" and b: "\<bar>?n\<bar> \<le> 2 ^ 53"
    using rnd_grid [OF False] by auto
  show ?thesis
  proof (cases "\<bar>?n\<bar> < 2 ^ 53")
    case True
    show ?thesis by (rule rnd_fix [OF g True]) (use expo_ge [of x] in linarith)
  next
    case False
    then have "\<bar>?n\<bar> = 2 ^ 53" using b by linarith
    then consider "?n = 2 ^ 53" | "?n = - (2 ^ 53)" by linarith
    then show ?thesis
    proof cases
      case 1
      have "rnd x = of_int (2 ^ 53) * 2 powi (?e - 52)" using g unfolding 1 .
      then have "rnd x = 2 powi (?e + 1)" unfolding of_int_pow2 using powi_53 [of ?e] by simp
      then show ?thesis using rnd_pow2 [of "?e + 1"] expo_ge [of x] by simp
    next
      case 2
      have "rnd x = of_int (- (2 ^ 53)) * 2 powi (?e - 52)" using g unfolding 2 .
      then have "rnd x = - (of_int (2 ^ 53) * 2 powi (?e - 52))" by simp
      then have "rnd x = - (2 powi (?e + 1))" unfolding of_int_pow2 using powi_53 [of ?e] by simp
      then show ?thesis using rnd_pow2 [of "?e + 1"] expo_ge [of x] by (simp add: rnd_minus)
    qed
  qed
qed

lemma rnd_min_positive:
  assumes "0 < rnd x"
  shows "2 powi (- 1074) \<le> rnd x"
proof -
  have nz: "x \<noteq> 0" using assms by auto
  let ?n = "rne (x / ulp x)"
  have g: "rnd x = of_int ?n * 2 powi (expo x - 52)" using rnd_grid(1) [OF nz] .
  have "0 < of_int ?n * (2::real) powi (expo x - 52)" using assms g by simp
  moreover have "0 < (2::real) powi (expo x - 52)" by simp
  ultimately have "0 < (of_int ?n :: real)" by (rule zero_less_mult_pos2)
  then have "1 \<le> ?n" by simp
  then have "(1::real) \<le> of_int ?n" by simp
  then have "1 * 2 powi (expo x - 52) \<le> of_int ?n * (2::real) powi (expo x - 52)"
    by (intro mult_right_mono) auto
  moreover have "- 1074 \<le> expo x - 52" using expo_ge [of x] by linarith
  then have "(2::real) powi (- 1074) \<le> 2 powi (expo x - 52)"
    by (intro power_int_increasing) auto
  ultimately show ?thesis using g by linarith
qed

lemma rnd_eqI:
  assumes "2 powi e \<le> \<bar>x\<bar>" and "\<bar>x\<bar> < 2 powi (e + 1)" and "- 1022 \<le> e"
    and "of_int n - 1 / 2 < x / 2 powi (e - 52)" and "x / 2 powi (e - 52) < of_int n + 1 / 2"
  shows "rnd x = of_int n * 2 powi (e - 52)"
proof -
  have e: "expo x = e" using assms(1-3) by (rule expo_eqI)
  have p: "0 < (2::real) powi e" by simp
  have nz: "x \<noteq> 0"
  proof
    assume "x = 0"
    then have "\<bar>x\<bar> = 0" by simp
    then show False using assms(1) p by linarith
  qed
  have "rne (x / ulp x) = n" unfolding ulp_def e using assms(4,5) by (rule rne_eqI)
  then show ?thesis using nz by (simp add: rnd_def ulp_def e)
qed

lemma rnd_underflow:
  assumes "\<bar>x\<bar> < 2 powi (- 1075)"
  shows "rnd x = 0"
proof (cases "x = 0")
  case True
  then show ?thesis by simp
next
  case False
  have "(2::real) powi (- 1075) \<le> 2 powi (- 1022)" by (intro power_int_increasing) auto
  then have e: "expo x = - 1022" using assms False by (intro expo_subnormal) auto
  have u: "ulp x = 2 powi (- 1074)" by (simp add: ulp_def e)
  have h: "(2::real) powi (- 1075) / 2 powi (- 1074) = 1 / 2"
    using power_int_diff [of "2::real" "- 1075" "- 1074"] by simp
  have "\<bar>x / ulp x\<bar> = \<bar>x\<bar> / 2 powi (- 1074)" by (simp add: u)
  also have "\<dots> < 2 powi (- 1075) / 2 powi (- 1074)"
    using assms by (intro divide_strict_right_mono) auto
  finally have c: "\<bar>x / ulp x\<bar> < 1 / 2" using h by simp
  define q where "q = x / ulp x"
  have "\<bar>q\<bar> < 1 / 2" using c by (simp only: q_def)
  then have "- (1 / 2) < q" and "q < 1 / 2" by linarith+
  then have "rne q = 0" using rne_eqI [of 0 q] by simp
  then show ?thesis by (simp add: rnd_def q_def)
qed

lemma rnd_one [simp]: "rnd 1 = 1"
  using rnd_int [of 1] by simp

lemma rnd_two [simp]: "rnd 2 = 2"
  using rnd_int [of 2] by simp

lemma rnd_half [simp]: "rnd (1 / 2) = 1 / 2"
  using rnd_pow2 [of "- 1"] by (simp add: inverse_eq_divide)

lemma one_less_huge: "1 < huge"
  unfolding huge_def by (rule one_less_power) auto

lemma round64_Fin: "- (huge) < rnd x \<Longrightarrow> rnd x < huge \<Longrightarrow> round64 x = Fin (rnd x)"
  by (simp add: round64_def Let_def)

lemma round64_PInf: "huge \<le> rnd x \<Longrightarrow> round64 x = PInf"
  by (simp add: round64_def Let_def)

lemma round64_unit:
  assumes "0 \<le> x" and "x \<le> 1"
  shows "round64 x = Fin (rnd x)" and "0 \<le> rnd x" and "rnd x \<le> 1"
proof -
  show a: "0 \<le> rnd x" using assms(1) by (rule rnd_nonneg)
  show b: "rnd x \<le> 1" using rnd_mono [OF assms(2)] by simp
  show "round64 x = Fin (rnd x)" using a b one_less_huge by (intro round64_Fin) linarith+
qed

lemma huge_pos: "0 < huge"
  using one_less_huge by linarith

lemma huge_gt_numeral: "(64::real) < huge"
proof -
  have "(2::real) ^ 6 < 2 ^ 1024" by (rule power_strict_increasing) auto
  then show ?thesis by (simp add: huge_def)
qed

lemma round64_small:
  assumes "rnd x = x" and "\<bar>x\<bar> \<le> 64"
  shows "round64 x = Fin x"
  using assms huge_gt_numeral by (simp add: round64_def Let_def abs_le_iff)

lemma round64_eq:
  assumes "rnd x = r" and "\<bar>r\<bar> \<le> 64"
  shows "round64 x = Fin r"
  using assms huge_gt_numeral by (simp add: round64_def Let_def abs_le_iff)

lemma fdiv_Fin: "y \<noteq> 0 \<Longrightarrow> fdiv (Fin x) (Fin y) = round64 (x / y)"
  by simp

lemma round64_int:
  assumes "\<bar>m\<bar> \<le> 64"
  shows "round64 (of_int m) = Fin (of_int m)"
proof (rule round64_small)
  show "rnd (of_int m) = of_int m" using assms by (intro rnd_int) auto
  show "\<bar>real_of_int m\<bar> \<le> 64" using assms by (simp flip: of_int_abs)
qed

lemma round64_above:
  assumes "b \<le> x" and "rnd b = b" and "- huge < b"
  shows "above b (round64 x)"
proof -
  have "b \<le> rnd x" using rnd_mono [OF assms(1)] assms(2) by simp
  then show ?thesis using assms(3) by (simp add: round64_def Let_def above_def)
qed

lemma rnd_m64: "rnd (- 64) = - 64"
  using rnd_int [of "- 64"] by simp

lemma rnd_64: "rnd 64 = 64"
  using rnd_int [of 64] by simp

section \<open>sigmoid in binary64 (C5)\<close>

lemma den_ge_one: "0 \<le> e \<Longrightarrow> 1 \<le> rnd (1 + e)"
  using rnd_mono [of 1 "1 + e"] by simp

lemma recip_range:
  assumes "0 \<le> e"
  shows "0 \<le> recip e" and "recip e \<le> 1"
proof -
  have d: "1 \<le> rnd (1 + e)" using assms by (rule den_ge_one)
  then have "0 \<le> 1 / rnd (1 + e)" and "1 / rnd (1 + e) \<le> 1" by simp_all
  then have "0 \<le> rnd (1 / rnd (1 + e))" and "rnd (1 / rnd (1 + e)) \<le> 1"
    using round64_unit(2,3) by blast+
  then show "0 \<le> recip e" and "recip e \<le> 1" by (simp_all add: recip_def)
qed

lemma recip_antimono:
  assumes "0 \<le> e1" and "e1 \<le> e2"
  shows "recip e2 \<le> recip e1"
proof (cases "huge \<le> rnd (1 + e2)")
  case True
  then show ?thesis using recip_range(1) [OF assms(1)] by (simp add: recip_def)
next
  case False
  have m: "rnd (1 + e1) \<le> rnd (1 + e2)" using assms(2) by (intro rnd_mono) simp
  then have f1: "\<not> huge \<le> rnd (1 + e1)" using False by linarith
  have d1: "1 \<le> rnd (1 + e1)" using assms(1) by (rule den_ge_one)
  have "1 / rnd (1 + e2) \<le> 1 / rnd (1 + e1)"
    using m d1 by (intro divide_left_mono) (auto intro: mult_pos_pos)
  then have "rnd (1 / rnd (1 + e2)) \<le> rnd (1 / rnd (1 + e1))" by (rule rnd_mono)
  then show ?thesis using False f1 by (simp add: recip_def)
qed

lemma sigmoid_den:
  assumes "0 \<le> e"
  shows "py_truediv (Fin 1) (fadd (Fin 1) (Fin e)) = Inr (Fin (recip e))"
proof (cases "huge \<le> rnd (1 + e)")
  case True
  then have "fadd (Fin 1) (Fin e) = PInf" by (simp add: round64_PInf)
  then show ?thesis using True by (simp add: py_truediv_def recip_def)
next
  case False
  have d: "1 \<le> rnd (1 + e)" using assms by (rule den_ge_one)
  have "round64 (1 + e) = Fin (rnd (1 + e))"
    using False d by (intro round64_Fin) linarith+
  then have a: "fadd (Fin 1) (Fin e) = Fin (rnd (1 + e))" by simp
  have nz: "rnd (1 + e) \<noteq> 0" using d by linarith
  have "0 \<le> 1 / rnd (1 + e)" and "1 / rnd (1 + e) \<le> 1" using d by simp_all
  then have r: "round64 (1 / rnd (1 + e)) = Fin (rnd (1 / rnd (1 + e)))"
    by (rule round64_unit(1))
  have "py_truediv (Fin 1) (Fin (rnd (1 + e))) = Inr (Fin (rnd (1 / rnd (1 + e))))"
    using nz r by (simp add: py_truediv_def)
  then show ?thesis unfolding a using False by (simp add: recip_def)
qed

lemma exp_rnd_nonneg: "0 \<le> rnd (exp x)"
  by (rule rnd_nonneg) simp

lemma math_exp_f64_cases:
  "rnd (exp z) < huge \<Longrightarrow> math_exp_f64 z = Inr (Fin (rnd (exp z)))"
  "huge \<le> rnd (exp z) \<Longrightarrow> math_exp_f64 z = Inl (Exc ''OverflowError'' ''math range error'')"
proof -
  show "math_exp_f64 z = Inr (Fin (rnd (exp z)))" if "rnd (exp z) < huge"
  proof -
    have "round64 (exp z) = Fin (rnd (exp z))"
      using that exp_rnd_nonneg [of z] by (intro round64_Fin) linarith+
    then show ?thesis by (simp add: math_exp_f64_def)
  qed
  show "math_exp_f64 z = Inl (Exc ''OverflowError'' ''math range error'')"
    if "huge \<le> rnd (exp z)"
    using that by (simp add: math_exp_f64_def round64_PInf)
qed

lemma sigmoid_f64_finite:
  assumes "rnd (exp (- x)) < huge"
  shows "sigmoid_f64 x = Inr (Fin (recip (rnd (exp (- x)))))"
  using math_exp_f64_cases(1) [OF assms] sigmoid_den [OF exp_rnd_nonneg [of "- x"]]
  by (simp add: sigmoid_f64_def bind_res_def)

lemma sigmoid_f64_overflow:
  assumes "huge \<le> rnd (exp (- x))"
  shows "sigmoid_f64 x = Inr (Fin (if x < 0 then 0 else 1))"
  using math_exp_f64_cases(2) [OF assms]
  by (simp add: sigmoid_f64_def bind_res_def)

lemma overflow_negative:
  assumes "huge \<le> rnd (exp (- x))"
  shows "x < 0"
proof (rule ccontr)
  assume "\<not> x < 0"
  then have "exp (- x) \<le> 1" by simp
  then have "rnd (exp (- x)) \<le> 1" using rnd_mono [of "exp (- x)" 1] by simp
  then show False using assms one_less_huge by linarith
qed

lemma sigmoid_f64_val: "sigmoid_f64 x = Inr (Fin (sig_val x))"
proof (cases "huge \<le> rnd (exp (- x))")
  case True
  then show ?thesis using sigmoid_f64_overflow [OF True] overflow_negative [OF True]
    by (simp add: sig_val_def)
next
  case False
  then have "rnd (exp (- x)) < huge" by simp
  then show ?thesis using False by (simp add: sigmoid_f64_finite sig_val_def)
qed

lemma sig_val_range: "0 \<le> sig_val x" "sig_val x \<le> 1"
  using recip_range [OF exp_rnd_nonneg [of "- x"]] by (simp_all add: sig_val_def)

lemma sig_val_mono:
  assumes "x \<le> y"
  shows "sig_val x \<le> sig_val y"
proof (cases "huge \<le> rnd (exp (- x))")
  case True
  then show ?thesis using sig_val_range(1) [of y] by (simp add: sig_val_def)
next
  case False
  have "exp (- y) \<le> exp (- x)" using assms by simp
  then have m: "rnd (exp (- y)) \<le> rnd (exp (- x))" by (rule rnd_mono)
  then have fy: "\<not> huge \<le> rnd (exp (- y))" using False by linarith
  have "recip (rnd (exp (- x))) \<le> recip (rnd (exp (- y)))"
    using exp_rnd_nonneg m by (rule recip_antimono)
  then show ?thesis using False fy by (simp add: sig_val_def)
qed

lemma exp_1000_lower: "(2::real) ^ 1250 \<le> exp 1000"
proof -
  have "1 + 1 + 1\<^sup>2 / 2 \<le> exp (1::real)" by (rule exp_lower_Taylor_quadratic) simp
  then have e: "5 / 2 \<le> exp (1::real)" by simp
  have "(32::real) \<le> (5 / 2) ^ 4" by (simp add: power_divide)
  also have "\<dots> \<le> exp 1 ^ 4" using e by (intro power_mono) auto
  finally have "(32::real) ^ 250 \<le> (exp 1 ^ 4) ^ 250" by (intro power_mono) auto
  moreover have "(32::real) ^ 250 = 2 ^ 1250"
  proof -
    have "(32::real) = 2 ^ 5" by simp
    then have "(32::real) ^ 250 = (2 ^ 5) ^ 250" by (simp only:)
    also have "\<dots> = 2 ^ (5 * 250)" by (rule power_mult [symmetric])
    finally show ?thesis by simp
  qed
  moreover have "(exp (1::real) ^ 4) ^ 250 = exp 1000"
  proof -
    have "(exp (1::real) ^ 4) ^ 250 = exp 1 ^ (4 * 250)" by (rule power_mult [symmetric])
    also have "\<dots> = exp (of_nat (4 * 250) * 1)" by (rule exp_of_nat_mult [symmetric])
    finally show ?thesis by simp
  qed
  ultimately show ?thesis by (simp only:)
qed

lemma huge_le_exp_1000: "huge \<le> exp 1000"
proof -
  have "(2::real) ^ 1024 \<le> 2 ^ 1250" by (rule power_increasing) auto
  then show ?thesis using exp_1000_lower unfolding huge_def by linarith
qed

lemma rnd_huge: "rnd huge = huge"
  using rnd_pow2 [of 1024] by (simp add: huge_def)

lemma exp_minus_1000_tiny: "exp (- 1000 :: real) < 2 powi (- 1075)"
proof -
  have "(2::real) ^ 1075 < 2 ^ 1250" by (rule power_strict_increasing) auto
  then have lt: "(2::real) ^ 1075 < exp 1000" using exp_1000_lower by linarith
  have "exp (- 1000 :: real) = inverse (exp 1000)" by (rule exp_minus)
  also have "\<dots> < inverse (2 ^ 1075)" using lt by (intro less_imp_inverse_less) auto
  also have "\<dots> = 2 powi (- 1075)" by (simp add: power_int_minus)
  finally show ?thesis .
qed

lemma sig_val_zero: "sig_val 0 = 1 / 2"
proof -
  have "\<not> huge \<le> (1::real)" "\<not> huge \<le> (2::real)"
    using one_less_huge power_increasing [of 1 1024 "2::real"] by (auto simp: huge_def)
  then show ?thesis by (simp add: sig_val_def recip_def)
qed

lemma sig_val_minus_1000: "sig_val (- 1000) = 0"
proof -
  have "rnd huge \<le> rnd (exp 1000)" using huge_le_exp_1000 by (rule rnd_mono)
  then have "huge \<le> rnd (exp 1000)" by (simp only: rnd_huge)
  then show ?thesis by (simp add: sig_val_def)
qed

lemma sig_val_1000: "sig_val 1000 = 1"
proof -
  have "\<bar>exp (- 1000 :: real)\<bar> < 2 powi (- 1075)" using exp_minus_1000_tiny by simp
  then have z: "rnd (exp (- 1000)) = 0" by (rule rnd_underflow)
  have "\<not> huge \<le> (0::real)" "\<not> huge \<le> (1::real)" using one_less_huge by auto
  then show ?thesis by (simp add: sig_val_def z recip_def)
qed

text \<open>
  Claim C5. For every finite argument \<open>sigmoid\<close> returns a value, raising nothing, and
  the value is between \<open>0\<close> and \<open>1\<close>. It is monotonically non-decreasing. When
  \<^verbatim>\<open>math.exp\<close> overflows the argument is negative and the result is \<open>0.0\<close>; the result
  is \<open>0.0\<close> for every argument up to \<open>-1000\<close> and \<open>1.0\<close> for every argument from \<open>1000\<close>
  on, where \<^verbatim>\<open>math.exp(-x)\<close> has underflowed to zero. And \<open>sigmoid(-1000) = 0.0\<close>,
  \<open>sigmoid(1000) = 1.0\<close>, \<open>sigmoid(0) = 0.5\<close>.
\<close>

theorem sigmoid_f64_saturates:
  "(\<exists>v. sigmoid_f64 x = Inr (Fin v) \<and> 0 \<le> v \<and> v \<le> 1)
   \<and> (x \<le> y \<longrightarrow>
        (\<exists>u v. sigmoid_f64 x = Inr (Fin u) \<and> sigmoid_f64 y = Inr (Fin v) \<and> u \<le> v))
   \<and> (math_exp_f64 (- x) = Inl (Exc ''OverflowError'' ''math range error'') \<longrightarrow>
        x < 0 \<and> sigmoid_f64 x = Inr (Fin 0))
   \<and> (x \<le> - 1000 \<longrightarrow> sigmoid_f64 x = Inr (Fin 0))
   \<and> (1000 \<le> x \<longrightarrow> sigmoid_f64 x = Inr (Fin 1))
   \<and> sigmoid_f64 (- 1000) = Inr (Fin 0)
   \<and> sigmoid_f64 1000 = Inr (Fin 1)
   \<and> sigmoid_f64 0 = Inr (Fin (1 / 2))"
proof -
  have a: "\<exists>v. sigmoid_f64 x = Inr (Fin v) \<and> 0 \<le> v \<and> v \<le> 1"
    using sigmoid_f64_val [of x] sig_val_range [of x] by blast
  have b: "\<exists>u v. sigmoid_f64 x = Inr (Fin u) \<and> sigmoid_f64 y = Inr (Fin v) \<and> u \<le> v"
    if "x \<le> y"
    using sigmoid_f64_val [of x] sigmoid_f64_val [of y] sig_val_mono [OF that] by blast
  have c: "x < 0 \<and> sigmoid_f64 x = Inr (Fin 0)"
    if "math_exp_f64 (- x) = Inl (Exc ''OverflowError'' ''math range error'')"
  proof -
    have "huge \<le> rnd (exp (- x))"
    proof (rule ccontr)
      assume "\<not> huge \<le> rnd (exp (- x))"
      then have "math_exp_f64 (- x) = Inr (Fin (rnd (exp (- x))))"
        by (intro math_exp_f64_cases(1)) simp
      then show False using that by simp
    qed
    then show ?thesis using overflow_negative sigmoid_f64_overflow by auto
  qed
  have d: "sigmoid_f64 x = Inr (Fin 0)" if "x \<le> - 1000"
  proof -
    have "sig_val x \<le> 0" using sig_val_mono [OF that] by (simp add: sig_val_minus_1000)
    then have "sig_val x = 0" using sig_val_range(1) [of x] by linarith
    then show ?thesis using sigmoid_f64_val [of x] by simp
  qed
  have e: "sigmoid_f64 x = Inr (Fin 1)" if "1000 \<le> x"
  proof -
    have "1 \<le> sig_val x" using sig_val_mono [OF that] by (simp add: sig_val_1000)
    then have "sig_val x = 1" using sig_val_range(2) [of x] by linarith
    then show ?thesis using sigmoid_f64_val [of x] by simp
  qed
  have f: "sigmoid_f64 (- 1000) = Inr (Fin 0)" "sigmoid_f64 1000 = Inr (Fin 1)"
    "sigmoid_f64 0 = Inr (Fin (1 / 2))"
    using sigmoid_f64_val [of "- 1000"] sigmoid_f64_val [of 1000] sigmoid_f64_val [of 0]
    by (simp_all add: sig_val_minus_1000 sig_val_1000 sig_val_zero)
  show ?thesis using a b c d e f by blast
qed

theorem sigmoid_f64_saturates_witness:
  "(- 2000 :: real) \<le> 3000
     \<and> math_exp_f64 (- (- 2000)) = Inl (Exc ''OverflowError'' ''math range error'')
     \<and> (- 2000 :: real) \<le> - 1000 \<and> sigmoid_f64 (- 2000) = Inr (Fin 0)
     \<and> (1000 :: real) \<le> 3000 \<and> sigmoid_f64 3000 = Inr (Fin 1)"
proof -
  have "huge \<le> exp (2000 :: real)" using huge_le_exp_1000 exp_le_cancel_iff [of 1000 "2000::real"]
    by linarith
  then have "rnd huge \<le> rnd (exp 2000)" by (rule rnd_mono)
  then have "huge \<le> rnd (exp 2000)" by (simp only: rnd_huge)
  then have "math_exp_f64 2000 = Inl (Exc ''OverflowError'' ''math range error'')"
    by (rule math_exp_f64_cases(2))
  then show ?thesis
    using sigmoid_f64_saturates [of "- 2000" 3000] sigmoid_f64_saturates [of 3000 3000]
    by simp
qed

section \<open>safe\_cosine in binary64 (C6)\<close>

lemma round64_nonneg:
  assumes "0 \<le> x"
  shows "nn64 (round64 x)"
proof -
  have "0 \<le> rnd x" using assms by (rule rnd_nonneg)
  then show ?thesis using huge_pos by (simp add: round64_def Let_def nn64_def rnd_idem)
qed

lemma nn64_fadd: "nn64 u \<Longrightarrow> nn64 v \<Longrightarrow> nn64 (fadd u v)"
  by (cases u; cases v) (auto simp: nn64_def intro: round64_nonneg [unfolded nn64_def])

lemma nn64_square: "nn64 (fmul (Fin x) (Fin x))"
  using round64_nonneg [of "x * x"] by simp

lemma nn64_foldl:
  "nn64 acc \<Longrightarrow> \<forall>v \<in> set vs. nn64 v \<Longrightarrow> nn64 (foldl fadd acc vs)"
  by (induction vs arbitrary: acc) (auto simp: nn64_fadd)

lemma nn64_dot_self: "nn64 (dot_f64 a a)"
proof -
  have "\<forall>v \<in> set (map2 (\<lambda>x y. fmul (Fin x) (Fin y)) a a). nn64 v"
    using nn64_square by (auto simp: zip_same simp del: fmul.simps)
  moreover have "nn64 (Fin 0)" by (simp add: nn64_def)
  ultimately show ?thesis unfolding dot_f64_def by (intro nn64_foldl)
qed

lemma sqrt_min: "sqrt (2 powi (- 1074)) = 2 powi (- 537)"
proof -
  have "(2::real) powi (- 1074) = 2 powi (- 537) * 2 powi (- 537)"
    using power_int_add [of "2::real" "- 537" "- 537"] by simp
  then have "sqrt (2 powi (- 1074)) = sqrt (2 powi (- 537) * 2 powi (- 537 :: int))"
    by (simp only:)
  also have "\<dots> = \<bar>2 powi (- 537)\<bar>" by (rule real_sqrt_abs2)
  finally show ?thesis by simp
qed

lemma fsqrt_nn64:
  assumes "nn64 v"
  shows "norm_ok (fsqrt v)"
proof (cases v)
  case (Fin s)
  then have s: "0 \<le> s" "rnd s = s" using assms by (auto simp: nn64_def)
  show ?thesis
  proof (cases "s = 0")
    case True
    then show ?thesis using Fin huge_pos by (simp add: norm_ok_def round64_def)
  next
    case False
    then have "0 < rnd s" using s by simp
    then have "2 powi (- 1074) \<le> s" using rnd_min_positive [of s] s by simp
    then have "sqrt (2 powi (- 1074)) \<le> sqrt s" by (rule real_sqrt_le_mono)
    then have "rnd (2 powi (- 537)) \<le> rnd (sqrt s)" unfolding sqrt_min by (rule rnd_mono)
    then have "2 powi (- 537) \<le> rnd (sqrt s)" using rnd_pow2 [of "- 537"] by simp
    moreover have "0 < (2::real) powi (- 537)" by simp
    ultimately show ?thesis using Fin s huge_pos
      by (auto simp: norm_ok_def round64_def Let_def)
  qed
qed (use assms in \<open>auto simp: nn64_def norm_ok_def\<close>)

lemma norm_ok_np_norm: "norm_ok (np_norm_f64 a)"
  unfolding np_norm_f64_def by (rule fsqrt_nn64) (rule nn64_dot_self)

lemma fmul_norm_nonzero:
  assumes "norm_ok u" and "norm_ok v" and "u \<noteq> Fin 0" and "v \<noteq> Fin 0"
  shows "fmul u v \<noteq> Fin 0"
proof -
  have pos: "0 < (2::real) powi (- 537)" by simp
  have big: "fmul (Fin r) PInf = PInf \<and> fmul PInf (Fin r) = PInf"
    if "2 powi (- 537) \<le> r" for r
    using that pos by (simp add: less_le_trans)
  have fin: "fmul (Fin r) (Fin t) \<noteq> Fin 0"
    if "2 powi (- 537) \<le> r" "2 powi (- 537) \<le> t" for r t
  proof -
    have "(2::real) powi (- 537) * 2 powi (- 537) \<le> r * t"
      using that pos by (intro mult_mono) auto
    moreover have "(2::real) powi (- 1074) = 2 powi (- 537) * 2 powi (- 537)"
      using power_int_add [of "2::real" "- 537" "- 537"] by simp
    ultimately have "2 powi (- 1074) \<le> r * t" by (simp only:)
    then have "rnd (2 powi (- 1074)) \<le> rnd (r * t)" by (rule rnd_mono)
    then have "2 powi (- 1074) \<le> rnd (r * t)" using rnd_pow2 [of "- 1074"] by simp
    moreover have "0 < (2::real) powi (- 1074)" by simp
    ultimately have "0 < rnd (r * t)" by linarith
    then show ?thesis by (auto simp: round64_def Let_def)
  qed
  show ?thesis
    using assms big fin by (cases u; cases v) (auto simp: norm_ok_def)
qed

lemma dot_f64_zero: "dot_f64 (replicate n 0) (replicate n 0) = Fin 0"
proof -
  have z: "fadd (Fin 0) (fmul (Fin 0) (Fin 0)) = Fin 0"
    using huge_pos by (simp add: round64_def)
  have "foldl fadd (Fin 0) (replicate n (fmul (Fin 0) (Fin 0))) = Fin 0"
    by (induction n) (simp_all add: z del: fmul.simps fadd.simps)
  moreover have "map2 (\<lambda>x y. fmul (Fin x) (Fin y)) (replicate n 0) (replicate n (0::real))
                   = replicate n (fmul (Fin 0) (Fin 0))"
    by (simp add: zip_replicate map_replicate)
  ultimately show ?thesis by (simp only: dot_f64_def)
qed

lemma np_norm_f64_zero: "np_norm_f64 (replicate n 0) = Fin 0"
  using huge_pos by (simp add: np_norm_f64_def dot_f64_zero round64_def)

lemma dot_1_5: "dot_f64 [1, 5] [1, 5] = Fin 26"
proof -
  have a: "round64 1 = Fin 1" using round64_int [of 1] by simp
  have b: "round64 25 = Fin 25" using round64_int [of 25] by simp
  have c: "round64 26 = Fin 26" using round64_int [of 26] by simp
  show ?thesis by (simp add: dot_f64_def a b c)
qed

lemma rnd_sqrt_26: "rnd (sqrt 26) = 5740985595342838 / 2 ^ 50"
proof -
  have lo: "(11481971190685675 / 2 ^ 51 :: real) < sqrt 26"
    by (rule real_less_rsqrt) (simp add: power_divide)
  have hi: "sqrt 26 < (11481971190685677 / 2 ^ 51 :: real)"
    by (rule real_less_lsqrt) (simp_all add: power_divide)
  have "rnd (sqrt 26) = of_int 5740985595342838 * 2 powi (2 - 52)"
  proof (rule rnd_eqI)
    have "(4::real) \<le> sqrt 26" using lo by simp
    then show "2 powi 2 \<le> \<bar>sqrt 26\<bar>" by simp
    have "sqrt 26 < (8::real)" using hi by simp
    then show "\<bar>sqrt 26\<bar> < 2 powi (2 + 1)" by simp
    show "- 1022 \<le> (2::int)" by simp
    show "of_int 5740985595342838 - 1 / 2 < sqrt 26 / 2 powi (2 - 52)"
      using lo by (simp add: power_int_minus field_simps)
    show "sqrt 26 / 2 powi (2 - 52) < of_int 5740985595342838 + 1 / 2"
      using hi by (simp add: power_int_minus field_simps)
  qed
  then show ?thesis by (simp add: power_int_minus field_simps)
qed

lemma rnd_norm_sq:
  "rnd (5740985595342838 / 2 ^ 50 * (5740985595342838 / 2 ^ 50)) = 7318349394477055 / 2 ^ 48"
proof -
  let ?x = "5740985595342838 / 2 ^ 50 * (5740985595342838 / 2 ^ 50) :: real"
  have "rnd ?x = of_int 7318349394477055 * 2 powi (4 - 52)"
  proof (rule rnd_eqI)
    show "2 powi 4 \<le> \<bar>?x\<bar>" by simp
    show "\<bar>?x\<bar> < 2 powi (4 + 1)" by simp
    show "- 1022 \<le> (4::int)" by simp
    show "of_int 7318349394477055 - 1 / 2 < ?x / 2 powi (4 - 52)"
      by (simp add: power_int_minus field_simps)
    show "?x / 2 powi (4 - 52) < of_int 7318349394477055 + 1 / 2"
      by (simp add: power_int_minus field_simps)
  qed
  then show ?thesis by (simp add: power_int_minus field_simps)
qed

lemma rnd_quotient: "rnd (26 / (7318349394477055 / 2 ^ 48)) = 1 + 1 / 2 ^ 52"
proof -
  let ?x = "26 / (7318349394477055 / 2 ^ 48) :: real"
  have "rnd ?x = of_int 4503599627370497 * 2 powi (0 - 52)"
  proof (rule rnd_eqI)
    show "2 powi 0 \<le> \<bar>?x\<bar>" by simp
    show "\<bar>?x\<bar> < 2 powi (0 + 1)" by simp
    show "- 1022 \<le> (0::int)" by simp
    show "of_int 4503599627370497 - 1 / 2 < ?x / 2 powi (0 - 52)"
      by (simp add: power_int_minus field_simps)
    show "?x / 2 powi (0 - 52) < of_int 4503599627370497 + 1 / 2"
      by (simp add: power_int_minus field_simps)
  qed
  then show ?thesis by (simp add: power_int_minus field_simps)
qed

lemma np_norm_1_5: "np_norm_f64 [1, 5] = Fin (5740985595342838 / 2 ^ 50)"
proof -
  have "round64 (sqrt 26) = Fin (5740985595342838 / 2 ^ 50)"
    by (rule round64_eq [OF rnd_sqrt_26]) simp
  then show ?thesis by (simp add: np_norm_f64_def dot_1_5)
qed

text \<open>
  Claim C6, as amended. For vectors of equal length \<open>safe_cosine\<close> returns a value: it
  raises nothing. It returns \<open>0.0\<close> when either computed norm is zero, so for a zero
  vector \<open>a\<close> and any \<open>b\<close>. When neither norm is zero, the divisor \<open>na * nb\<close> is not zero
  either, and the result is the rounded quotient of the dot product by it. The
  quotient is not confined to \<open>[-1, 1]\<close>.
\<close>

theorem safe_cosine_f64_guard:
  assumes "length a = length b"
  shows "(\<exists>c. safe_cosine_f64 a b = Inr c)
       \<and> (np_norm_f64 a = Fin 0 \<or> np_norm_f64 b = Fin 0 \<longrightarrow>
            safe_cosine_f64 a b = Inr (Fin 0))
       \<and> (np_norm_f64 a \<noteq> Fin 0 \<and> np_norm_f64 b \<noteq> Fin 0 \<longrightarrow>
            fmul (np_norm_f64 a) (np_norm_f64 b) \<noteq> Fin 0
            \<and> safe_cosine_f64 a b
                = Inr (fdiv (dot_f64 a b) (fmul (np_norm_f64 a) (np_norm_f64 b))))
       \<and> safe_cosine_f64 (replicate (length a) 0) b = Inr (Fin 0)"
proof -
  have z: "safe_cosine_f64 a b = Inr (Fin 0)"
    if "np_norm_f64 a = Fin 0 \<or> np_norm_f64 b = Fin 0"
    using that by (auto simp: safe_cosine_f64_def Let_def)
  have n: "fmul (np_norm_f64 a) (np_norm_f64 b) \<noteq> Fin 0
           \<and> safe_cosine_f64 a b
               = Inr (fdiv (dot_f64 a b) (fmul (np_norm_f64 a) (np_norm_f64 b)))"
    if "np_norm_f64 a \<noteq> Fin 0 \<and> np_norm_f64 b \<noteq> Fin 0"
    using that assms fmul_norm_nonzero [OF norm_ok_np_norm norm_ok_np_norm, of a b]
    by (simp add: safe_cosine_f64_def Let_def np_dot_f64_def bind_res_def)
  have "safe_cosine_f64 (replicate (length a) 0) b = Inr (Fin 0)"
    by (simp add: safe_cosine_f64_def Let_def np_norm_f64_zero)
  then show ?thesis using z n by blast
qed

theorem safe_cosine_f64_guard_witness:
  "length [0, 0 :: real] = length [3, 4 :: real]
   \<and> np_norm_f64 [0, 0] = Fin 0
   \<and> safe_cosine_f64 [0, 0] [3, 4] = Inr (Fin 0)
   \<and> length [1, 5 :: real] = length [1, 5 :: real]
   \<and> np_norm_f64 [1, 5] \<noteq> Fin 0
   \<and> fmul (np_norm_f64 [1, 5]) (np_norm_f64 [1, 5]) \<noteq> Fin 0"
proof -
  have z: "np_norm_f64 [0, 0] = Fin 0"
    using np_norm_f64_zero [of "Suc (Suc 0)"] by simp
  have n: "np_norm_f64 [1, 5] \<noteq> Fin 0" by (simp add: np_norm_1_5)
  show ?thesis
    using safe_cosine_f64_guard [of "[0, 0]" "[3, 4]"] safe_cosine_f64_guard [of "[1, 5]" "[1, 5]"]
      z n
    by simp
qed

text \<open>
  The claim as written fails: for \<open>a = b = [1, 5]\<close> the norm is the rounded square root
  of \<open>26\<close>, the product of the two norms rounds to \<open>26 - 2\<^sup>-\<^sup>4\<^sup>8\<close>, and the quotient
  rounds to \<open>1 + 2\<^sup>-\<^sup>5\<^sup>2\<close>: the result \<open>1.0000000000000002\<close> is above \<open>1\<close>.
\<close>

theorem safe_cosine_f64_exceeds_one:
  "safe_cosine_f64 [1, 5] [1, 5] = Inr (Fin (1 + 1 / 2 ^ 52))
   \<and> (1::real) < 1 + 1 / 2 ^ 52"
proof -
  have p: "fmul (Fin (5740985595342838 / 2 ^ 50)) (Fin (5740985595342838 / 2 ^ 50))
             = Fin (7318349394477055 / 2 ^ 48)"
    unfolding fmul.simps by (rule round64_eq [OF rnd_norm_sq]) simp
  have nz: "(7318349394477055 / 2 ^ 48 :: real) \<noteq> 0" by simp
  have q: "fdiv (Fin 26) (Fin (7318349394477055 / 2 ^ 48)) = Fin (1 + 1 / 2 ^ 52)"
    unfolding fdiv_Fin [OF nz] by (rule round64_eq [OF rnd_quotient]) simp
  have n0: "Fin (5740985595342838 / 2 ^ 50) \<noteq> Fin 0" by simp
  have "safe_cosine_f64 [1, 5] [1, 5]
          = Inr (fdiv (Fin 26) (fmul (Fin (5740985595342838 / 2 ^ 50))
                                     (Fin (5740985595342838 / 2 ^ 50))))"
    unfolding safe_cosine_f64_def Let_def np_norm_1_5 np_dot_f64_def dot_1_5 bind_res_def
    using n0 by (simp del: fmul.simps fdiv.simps)
  then have "safe_cosine_f64 [1, 5] [1, 5] = Inr (Fin (1 + 1 / 2 ^ 52))"
    unfolding p q .
  then show ?thesis by simp
qed

section \<open>token\_entropy in binary64 (C2)\<close>

lemma rnd_eps: "rnd (1 / 10 ^ 12) = 4951760157141521 / 2 ^ 92"
proof -
  let ?x = "1 / 10 ^ 12 :: real"
  have "rnd ?x = of_int 4951760157141521 * 2 powi (- 40 - 52)"
  proof (rule rnd_eqI)
    show "2 powi (- 40) \<le> \<bar>?x\<bar>" by (simp add: power_int_minus field_simps)
    show "\<bar>?x\<bar> < 2 powi (- 40 + 1)" by (simp add: power_int_minus field_simps)
    show "- 1022 \<le> (- 40 :: int)" by simp
    show "of_int 4951760157141521 - 1 / 2 < ?x / 2 powi (- 40 - 52)"
      by (simp add: power_int_minus field_simps)
    show "?x / 2 powi (- 40 - 52) < of_int 4951760157141521 + 1 / 2"
      by (simp add: power_int_minus field_simps)
  qed
  then show ?thesis by (simp add: power_int_minus field_simps)
qed

lemma rnd_one_plus_eps: "rnd (1 + 4951760157141521 / 2 ^ 92) = 1 + 4504 / 2 ^ 52"
proof -
  let ?x = "1 + 4951760157141521 / 2 ^ 92 :: real"
  have "rnd ?x = of_int 4503599627375000 * 2 powi (0 - 52)"
  proof (rule rnd_eqI)
    show "2 powi 0 \<le> \<bar>?x\<bar>" by simp
    show "\<bar>?x\<bar> < 2 powi (0 + 1)" by simp
    show "- 1022 \<le> (0 :: int)" by simp
    show "of_int 4503599627375000 - 1 / 2 < ?x / 2 powi (0 - 52)"
      by (simp add: power_int_minus field_simps)
    show "?x / 2 powi (0 - 52) < of_int 4503599627375000 + 1 / 2"
      by (simp add: power_int_minus field_simps)
  qed
  then show ?thesis by (simp add: power_int_minus field_simps)
qed

lemma entropy_floor_eq: "entropy_floor = rnd (ln (1 + 4504 / 2 ^ 52))"
  by (simp only: entropy_floor_def rnd_eps rnd_one_plus_eps)

lemma entropy_floor_bounds:
  "4504 / 2 ^ 52 - 1 / 2 ^ 72 \<le> entropy_floor" "entropy_floor \<le> 4504 / 2 ^ 52"
proof -
  let ?t = "4504 / 2 ^ 52 :: real"
  have t0: "0 \<le> ?t" and t1: "?t \<le> 1" by simp_all
  have up: "ln (1 + ?t) \<le> ?t" using t0 by (rule ln_add_one_self_le_self)
  have "?t - ?t\<^sup>2 \<le> ln (1 + ?t)" using t0 t1 by (rule ln_one_plus_pos_lower_bound)
  moreover have "?t\<^sup>2 \<le> 1 / 2 ^ 72" by (simp add: power2_eq_square)
  ultimately have lo: "?t - 1 / 2 ^ 72 \<le> ln (1 + ?t)" by linarith
  have ft: "rnd ?t = ?t"
    by (rule rnd_fix [of _ 4504 "- 52"]) (simp_all add: power_int_minus field_simps)
  have fl: "rnd (?t - 1 / 2 ^ 72) = ?t - 1 / 2 ^ 72"
    by (rule rnd_fix [of _ "4504 * 2 ^ 20 - 1" "- 72"]) (simp_all add: power_int_minus field_simps)
  show "?t - 1 / 2 ^ 72 \<le> entropy_floor"
    unfolding entropy_floor_eq using rnd_mono [OF lo] fl by simp
  show "entropy_floor \<le> ?t"
    unfolding entropy_floor_eq using rnd_mono [OF up] ft by simp
qed

lemma entropy_floor_range: "1 / 10 ^ 12 < entropy_floor" "entropy_floor < 10001 / 10 ^ 16"
proof -
  have "(1 / 10 ^ 12 :: real) < 4504 / 2 ^ 52 - 1 / 2 ^ 72" by simp
  then show "1 / 10 ^ 12 < entropy_floor" using entropy_floor_bounds(1) by linarith
  have "(4504 / 2 ^ 52 :: real) < 10001 / 10 ^ 16" by simp
  then show "entropy_floor < 10001 / 10 ^ 16" using entropy_floor_bounds(2) by linarith
qed

lemma rnd_entropy_floor: "rnd entropy_floor = entropy_floor"
  unfolding entropy_floor_def by (rule rnd_idem)

lemma round64_between:
  assumes "lo \<le> x" and "x \<le> hi" and "rnd lo = lo" and "rnd hi = hi"
    and "- huge < lo" and "hi < huge"
  shows "round64 x = Fin (rnd x)" and "lo \<le> rnd x" and "rnd x \<le> hi"
proof -
  show a: "lo \<le> rnd x" using rnd_mono [OF assms(1)] assms(3) by simp
  show b: "rnd x \<le> hi" using rnd_mono [OF assms(2)] assms(4) by simp
  show "round64 x = Fin (rnd x)" using a b assms(5,6) by (intro round64_Fin) linarith+
qed

lemma eps_f64_eq: "eps_f64 = Fin eps_d"
  unfolding eps_f64_def eps_d_def by (rule round64_eq [OF rnd_eps]) simp

lemma eps_d_facts: "rnd eps_d = eps_d" "2 powi (- 40) \<le> eps_d" "eps_d \<le> 1 / 2"
    "rnd (1 + eps_d) = 1 + 4504 / 2 ^ 52" "0 < eps_d"
proof -
  show "rnd eps_d = eps_d" using rnd_idem [of "1 / 10 ^ 12"] by (simp only: rnd_eps eps_d_def)
  show "2 powi (- 40) \<le> eps_d" by (simp add: eps_d_def power_int_minus field_simps)
  show "eps_d \<le> 1 / 2" by (simp add: eps_d_def)
  show "rnd (1 + eps_d) = 1 + 4504 / 2 ^ 52" unfolding eps_d_def by (rule rnd_one_plus_eps)
  show "0 < eps_d" by (simp add: eps_d_def)
qed

lemma ln_eps_lower: "- 64 \<le> ln eps_d"
proof -
  have "ln (2 powi (- 40)) \<le> ln eps_d"
    using eps_d_facts(2) by (intro ln_mono) auto
  moreover have "ln ((2::real) powi (- 40)) = - (40 * ln 2)"
  proof -
    have a: "(2::real) powi (- 40) = inverse (2 ^ 40)"
      by (simp only: power_int_minus power_int_numeral)
    have b: "ln (inverse ((2::real) ^ 40)) = - ln (2 ^ 40)" by (rule ln_inverse)
    have c: "ln ((2::real) ^ 40) = real 40 * ln 2" by (rule ln_realpow)
    show ?thesis unfolding a b c by simp
  qed
  moreover have "ln (2::real) \<le> 1" using ln_le_minus_one [of "2::real"] by simp
  ultimately show ?thesis by linarith
qed

lemma entropy_floor_pos: "0 < entropy_floor"
  using entropy_floor_range(1) by (simp add: less_trans [rotated])

lemma entropy_floor_le_64: "entropy_floor \<le> 64"
  using entropy_floor_range(2) by simp

lemma term_bounds:
  assumes "0 < tot" and "0 < v" and "v \<le> tot"
  shows "\<exists>pr lr. py_int_truediv v tot = Inr (Fin pr)
           \<and> math_log_f64 (fadd (Fin pr) eps_f64) = Inr (Fin lr)
           \<and> (\<exists>tr. fmul (Fin pr) (Fin lr) = Fin tr \<and> - 64 \<le> tr \<and> tr \<le> entropy_floor
                  \<and> (2 * v \<le> tot \<longrightarrow> tr \<le> 0))"
proof -
  define pr where "pr = rnd (real v / real tot)"
  have q0: "0 \<le> real v / real tot" and q1: "real v / real tot \<le> 1"
    using assms by simp_all
  have p: "round64 (real v / real tot) = Fin pr" and p0: "0 \<le> pr" and p1: "pr \<le> 1"
    using round64_unit [OF q0 q1] by (simp_all add: pr_def)
  have P: "py_int_truediv v tot = Inr (Fin pr)"
    using assms(1) p by (simp add: py_int_truediv_def)
  define qr where "qr = rnd (pr + eps_d)"
  have "eps_d \<le> pr + eps_d" and "pr + eps_d \<le> 1 + eps_d" using p0 p1 by simp_all
  then have "rnd eps_d \<le> qr" and "qr \<le> rnd (1 + eps_d)"
    unfolding qr_def by (auto intro: rnd_mono)
  then have ql: "eps_d \<le> qr" and qu: "qr \<le> 1 + 4504 / 2 ^ 52"
    by (simp_all add: eps_d_facts)
  have qpos: "0 < qr" using ql eps_d_facts(5) by linarith
  have "qr < 64" using qu by simp
  then have Q: "fadd (Fin pr) eps_f64 = Fin qr"
    unfolding eps_f64_eq fadd.simps qr_def
    using qpos huge_gt_numeral by (intro round64_Fin) (auto simp: qr_def)
  define lr where "lr = rnd (ln qr)"
  have "ln eps_d \<le> ln qr" using ql eps_d_facts(5) by (intro ln_mono) auto
  then have l1: "- 64 \<le> ln qr" using ln_eps_lower by linarith
  have l2: "ln qr \<le> ln (1 + 4504 / 2 ^ 52)" using qu qpos by (intro ln_mono) auto
  have ll: "- 64 \<le> lr" unfolding lr_def using rnd_mono [OF l1] by (simp add: rnd_m64)
  have lu: "lr \<le> entropy_floor"
    unfolding lr_def entropy_floor_eq using l2 by (rule rnd_mono)
  have "round64 (ln qr) = Fin lr"
    unfolding lr_def
    using ll lu entropy_floor_le_64 huge_gt_numeral by (intro round64_Fin) (auto simp: lr_def)
  then have Lg: "math_log_f64 (fadd (Fin pr) eps_f64) = Inr (Fin lr)"
    using qpos by (simp add: Q math_log_f64_def del: fadd.simps)
  define tr where "tr = rnd (pr * lr)"
  have m1: "- 64 \<le> pr * lr"
  proof -
    have "pr * lr \<ge> pr * (- 64)" using ll p0 by (intro mult_left_mono) auto
    moreover have "pr * (- 64) \<ge> - 64" using p1 by simp
    ultimately show ?thesis by linarith
  qed
  have m2: "pr * lr \<le> entropy_floor"
  proof -
    have "pr * lr \<le> pr * entropy_floor" using lu p0 by (intro mult_left_mono) auto
    also have "\<dots> \<le> 1 * entropy_floor" using p1 entropy_floor_pos by (intro mult_right_mono) auto
    finally show ?thesis by simp
  qed
  have tl: "- 64 \<le> tr" unfolding tr_def using rnd_mono [OF m1] by (simp add: rnd_m64)
  have tu: "tr \<le> entropy_floor"
    unfolding tr_def using rnd_mono [OF m2] by (simp add: rnd_entropy_floor)
  have T: "fmul (Fin pr) (Fin lr) = Fin tr"
    unfolding fmul.simps tr_def
    using tl tu entropy_floor_le_64 huge_gt_numeral by (intro round64_Fin) (auto simp: tr_def)
  have small: "tr \<le> 0" if "2 * v \<le> tot"
  proof -
    have "real v / real tot \<le> 1 / 2" using that assms(1) by (simp add: field_simps)
    then have "pr \<le> 1 / 2" unfolding pr_def using rnd_mono [of "real v / real tot" "1 / 2"] by simp
    then have "pr + eps_d \<le> 1" using eps_d_facts(3) by linarith
    then have "qr \<le> 1" unfolding qr_def using rnd_mono [of "pr + eps_d" 1] by simp
    then have "ln qr \<le> 0" using qpos by simp
    then have "lr \<le> 0" unfolding lr_def using rnd_mono [of "ln qr" 0] by simp
    then have "pr * lr \<le> 0" using p0 by (simp add: mult_nonneg_nonpos)
    then show ?thesis unfolding tr_def using rnd_mono [of "pr * lr" 0] by simp
  qed
  show ?thesis using P Lg T tl tu small by blast
qed

lemma fsub_above:
  assumes "above b ent" and "b' \<le> b - tr" and "rnd b' = b'" and "- huge < b'"
  shows "above b' (fsub ent (Fin tr))"
proof (cases ent)
  case (Fin r)
  then have "b \<le> r" using assms(1) by (simp add: above_def)
  then have "b' \<le> r + - tr" using assms(2) by linarith
  then have "above b' (round64 (r + - tr))" using assms(3,4) by (rule round64_above)
  then show ?thesis using Fin by (simp add: fsub_def)
next
  case PInf
  then show ?thesis by (simp add: fsub_def above_def)
qed (use assms(1) in \<open>auto simp: above_def\<close>)

lemma step_small:
  assumes "0 < tot" and "0 < snd kv" and "2 * snd kv \<le> tot"
    and "above b ent" and "rnd b = b" and "- huge < b"
  shows "\<exists>ent'. entropy_step_f64 tot ent kv = Inr ent' \<and> above b ent'"
proof -
  have "snd kv \<le> tot" using assms(3) by linarith
  then obtain pr lr tr where t: "py_int_truediv (snd kv) tot = Inr (Fin pr)"
      "math_log_f64 (fadd (Fin pr) eps_f64) = Inr (Fin lr)"
      "fmul (Fin pr) (Fin lr) = Fin tr" "tr \<le> 0"
    using term_bounds [OF assms(1,2)] assms(3) by blast
  have "above b (fsub ent (Fin tr))"
    using assms(4) _ assms(5,6) by (rule fsub_above) (use t(4) in linarith)
  then show ?thesis
    by (simp add: entropy_step_f64_def bind_res_def t(1,2,3) del: fadd.simps fmul.simps)
qed

lemma neg_floor_facts: "rnd (- entropy_floor) = - entropy_floor" "- huge < - entropy_floor"
  using rnd_entropy_floor entropy_floor_le_64 huge_gt_numeral by (simp_all add: rnd_minus)

lemma step_any:
  assumes "0 < tot" and "0 < snd kv" and "snd kv \<le> tot" and "above 0 ent"
  shows "\<exists>ent'. entropy_step_f64 tot ent kv = Inr ent' \<and> above (- entropy_floor) ent'"
proof -
  obtain pr lr tr where t: "py_int_truediv (snd kv) tot = Inr (Fin pr)"
      "math_log_f64 (fadd (Fin pr) eps_f64) = Inr (Fin lr)"
      "fmul (Fin pr) (Fin lr) = Fin tr" "tr \<le> entropy_floor"
    using term_bounds [OF assms(1,2,3)] by blast
  have "above (- entropy_floor) (fsub ent (Fin tr))"
    using assms(4) _ neg_floor_facts by (rule fsub_above) (use t(4) in linarith)
  then show ?thesis
    by (simp add: entropy_step_f64_def bind_res_def t(1,2,3) del: fadd.simps fmul.simps)
qed

lemma loop_small:
  assumes "0 < tot" and "rnd b = b" and "- huge < b"
  shows "\<forall>kv \<in> set c. 0 < snd kv \<and> 2 * snd kv \<le> tot \<Longrightarrow> above b ent \<Longrightarrow>
         \<exists>r. fold_res (entropy_step_f64 tot) ent c = Inr r \<and> above b r"
proof (induction c arbitrary: ent)
  case Nil
  then show ?case by simp
next
  case (Cons kv c)
  obtain ent' where s: "entropy_step_f64 tot ent kv = Inr ent'" "above b ent'"
    using step_small [OF assms(1) _ _ Cons.prems(2) assms(2,3), of kv] Cons.prems(1) by auto
  obtain r where "fold_res (entropy_step_f64 tot) ent' c = Inr r" "above b r"
    using Cons.IH [OF _ s(2)] Cons.prems(1) by auto
  then show ?case by (simp add: s(1) bind_res_def)
qed

lemma above_weaken: "above b v \<Longrightarrow> b' \<le> b \<Longrightarrow> above b' v"
  by (auto simp: above_def)

lemma member_le_sum: "kv \<in> set c \<Longrightarrow> snd kv \<le> sum_list (map snd (c :: ('c \<times> nat) list))"
  by (induction c) auto

lemma loop_any:
  assumes "0 < tot"
  shows "\<forall>kv \<in> set c. 0 < snd kv \<Longrightarrow> sum_list (map snd c) \<le> tot \<Longrightarrow> above 0 ent \<Longrightarrow>
         \<exists>r. fold_res (entropy_step_f64 tot) ent c = Inr r \<and> above (- entropy_floor) r"
proof (induction c arbitrary: ent)
  case Nil
  then show ?case using above_weaken [of 0 ent "- entropy_floor"] entropy_floor_pos by simp
next
  case (Cons kv c)
  have v: "0 < snd kv" and le: "snd kv + sum_list (map snd c) \<le> tot"
    and pos: "\<forall>kv \<in> set c. 0 < snd kv"
    using Cons.prems by auto
  show ?case
  proof (cases "2 * snd kv \<le> tot")
    case True
    have "rnd 0 = (0::real)" "- huge < 0" using huge_pos by simp_all
    then obtain ent' where s: "entropy_step_f64 tot ent kv = Inr ent'" "above 0 ent'"
      using step_small [OF assms v True Cons.prems(3)] by blast
    have "sum_list (map snd c) \<le> tot" using le by linarith
    then obtain r where "fold_res (entropy_step_f64 tot) ent' c = Inr r"
        "above (- entropy_floor) r"
      using Cons.IH [OF pos _ s(2)] by blast
    then show ?thesis by (simp add: s(1) bind_res_def)
  next
    case False
    have "snd kv \<le> tot" using le by linarith
    then obtain ent' where s: "entropy_step_f64 tot ent kv = Inr ent'"
        "above (- entropy_floor) ent'"
      using step_any [OF assms v _ Cons.prems(3)] by blast
    have "\<forall>kv' \<in> set c. 0 < snd kv' \<and> 2 * snd kv' \<le> tot"
    proof
      fix kv' assume m: "kv' \<in> set c"
      have "snd kv' \<le> sum_list (map snd c)" using m by (rule member_le_sum)
      then show "0 < snd kv' \<and> 2 * snd kv' \<le> tot" using pos m le False by auto
    qed
    then obtain r where "fold_res (entropy_step_f64 tot) ent' c = Inr r"
        "above (- entropy_floor) r"
      using loop_small [OF assms neg_floor_facts _ s(2)] by blast
    then show ?thesis by (simp add: s(1) bind_res_def)
  qed
qed

lemma token_entropy_f64_lower:
  "\<exists>v. token_entropy_f64 s = Inr v \<and> above (- entropy_floor) v"
proof (cases "s = []")
  case True
  have "above (- entropy_floor) (Fin 0)" using entropy_floor_pos by (simp add: above_def)
  then show ?thesis using True by (simp add: token_entropy_f64_def)
next
  case False
  have tot: "0 < length s" using False by simp
  have "\<exists>r. fold_res (entropy_step_f64 (length s)) (Fin 0) (Counter s) = Inr r
           \<and> above (- entropy_floor) r"
  proof (rule loop_any [OF tot])
    show "\<forall>kv \<in> set (Counter s). 0 < snd kv" using Counter_positive by blast
    show "sum_list (map snd (Counter s)) \<le> length s" by (simp add: Counter_total)
    show "above 0 (Fin 0)" by (simp add: above_def)
  qed
  then show ?thesis using False by (simp add: token_entropy_f64_def Let_def Counter_total)
qed

lemma token_entropy_f64_replicate:
  assumes "0 < n"
  shows "token_entropy_f64 (replicate n c) = Inr (Fin (- entropy_floor))"
proof -
  have ne: "replicate n c \<noteq> []" using assms by simp
  have p: "py_int_truediv n n = Inr (Fin 1)"
  proof -
    have "round64 1 = Fin 1" by (rule round64_eq) simp_all
    then show ?thesis using assms by (simp add: py_int_truediv_def)
  qed
  have q: "fadd (Fin 1) eps_f64 = Fin (1 + 4504 / 2 ^ 52)"
    unfolding eps_f64_eq fadd.simps by (rule round64_eq [OF eps_d_facts(4)]) simp
  have "round64 (ln (1 + 4504 / 2 ^ 52)) = Fin entropy_floor"
    using entropy_floor_eq [symmetric] entropy_floor_pos entropy_floor_le_64
    by (intro round64_eq) auto
  then have l: "math_log_f64 (Fin (1 + 4504 / 2 ^ 52)) = Inr (Fin entropy_floor)"
    by (simp add: math_log_f64_def)
  have m: "fmul (Fin 1) (Fin entropy_floor) = Fin entropy_floor"
    unfolding fmul.simps using rnd_entropy_floor entropy_floor_pos entropy_floor_le_64
    by (intro round64_eq) auto
  have "round64 (0 + - entropy_floor) = Fin (- entropy_floor)"
    using neg_floor_facts(1) entropy_floor_pos entropy_floor_le_64 by (intro round64_eq) auto
  then have d: "fsub (Fin 0) (Fin entropy_floor) = Fin (- entropy_floor)"
    by (simp add: fsub_def)
  have "entropy_step_f64 n (Fin 0) (c, n) = Inr (Fin (- entropy_floor))"
    unfolding entropy_step_f64_def bind_res_def by (simp only: snd_conv p sum.case q l m d)
  then show ?thesis
    using ne by (simp add: token_entropy_f64_def Counter_replicate [OF assms] bind_res_def)
qed

text \<open>
  Claim C2, as amended. \<open>token_entropy\<close> (the spec's \<open>char_entropy\<close>) returns \<open>0.0\<close> for
  the empty string. For every string it returns a value, raising nothing, and the
  value is at least \<open>- entropy_floor\<close>, where \<open>entropy_floor\<close>, the computed
  \<^verbatim>\<open>math.log(1.0 + 1e-12)\<close>, lies between \<open>10\<^sup>-\<^sup>1\<^sup>2\<close> and \<open>1.0001 * 10\<^sup>-\<^sup>1\<^sup>2\<close>. For a string of
  \<open>n > 0\<close> copies of one character the result is exactly \<open>- entropy_floor\<close>, whatever
  \<open>n\<close> is: a negative number, which does not tend to \<open>0\<close>.
\<close>

theorem token_entropy_f64_bounds:
  fixes s :: "'c list" and c :: 'c
  assumes "0 < n"
  shows "token_entropy_f64 ([] :: 'c list) = Inr (Fin 0)
       \<and> (\<exists>v. token_entropy_f64 s = Inr v
              \<and> (v = PInf \<or> (\<exists>r. v = Fin r \<and> - entropy_floor \<le> r)))
       \<and> token_entropy_f64 (replicate n c) = Inr (Fin (- entropy_floor))
       \<and> 1 / 10 ^ 12 < entropy_floor
       \<and> entropy_floor < 10001 / 10 ^ 16"
proof -
  have "token_entropy_f64 ([] :: 'c list) = Inr (Fin 0)" by (simp add: token_entropy_f64_def)
  moreover have "\<exists>v. token_entropy_f64 s = Inr v
                   \<and> (v = PInf \<or> (\<exists>r. v = Fin r \<and> - entropy_floor \<le> r))"
    using token_entropy_f64_lower [of s] by (simp add: above_def)
  moreover have "token_entropy_f64 (replicate n c) = Inr (Fin (- entropy_floor))"
    using assms by (rule token_entropy_f64_replicate)
  ultimately show ?thesis using entropy_floor_range by blast
qed

theorem token_entropy_f64_bounds_witness:
  "(0::nat) < 3
     \<and> token_entropy_f64 ''aaa'' = Inr (Fin (- entropy_floor))
     \<and> (\<exists>v. token_entropy_f64 ''ab'' = Inr v
            \<and> (v = PInf \<or> (\<exists>r. v = Fin r \<and> - entropy_floor \<le> r)))"
  using token_entropy_f64_bounds [of 3 "''ab''" "CHR ''a''"]
  by (simp add: numeral_3_eq_3)

text \<open>
  The claim as written fails: the entropy of the one-character string \<open>''a''\<close> is
  negative.
\<close>

theorem token_entropy_f64_single_negative:
  "token_entropy_f64 ''a'' = Inr (Fin (- entropy_floor)) \<and> - entropy_floor < 0"
  using token_entropy_f64_replicate [of 1 "CHR ''a''"] entropy_floor_pos by simp

end
